theory Spec2Isabelle
  imports Complex_Main "HOL-Library.Log_Nat"
begin

section \<open>JavaScript values used by the services\<close>

subsection \<open>Numbers\<close>

text \<open>
  A JavaScript number is an IEEE 754 double. Every finite double is a rational, and each
  arithmetic operation returns the exact result rounded to the nearest double, ties to the
  even significand. \<open>dbl\<close> is that rounding on the rationals, for magnitudes below the
  overflow threshold \<open>2^1024\<close> (the services stay far below it); the exponent is bounded below
  at \<open>-1074\<close>, which covers the subnormal range.
\<close>

definition pow2 :: "int \<Rightarrow> rat" where
  "pow2 e = (if 0 \<le> e then 2 ^ nat e else 1 / 2 ^ nat (- e))"

definition round_half_even :: "rat \<Rightarrow> int" where
  "round_half_even x =
     (let f = \<lfloor>x\<rfloor>; d = x - of_int f
      in if d < 1 / 2 then f else if 1 / 2 < d then f + 1 else if even f then f else f + 1)"

text \<open>\<open>ilog2 x\<close> is the binary exponent of a positive rational: \<open>2^e \<le> x < 2^(e+1)\<close>.\<close>

definition ilog2 :: "rat \<Rightarrow> int" where
  "ilog2 x =
     (let (a, b) = quotient_of x;
          k = bitlen a - bitlen b
      in if pow2 k \<le> x then k else k - 1)"

definition dbl :: "rat \<Rightarrow> rat" where
  "dbl x =
     (if x = 0 then 0
      else let e = max (ilog2 \<bar>x\<bar> - 52) (- 1074)
           in of_int (round_half_even (x / pow2 e)) * pow2 e)"

definition js_add :: "rat \<Rightarrow> rat \<Rightarrow> rat" where
  "js_add a b = dbl (a + b)"

definition js_sub :: "rat \<Rightarrow> rat \<Rightarrow> rat" where
  "js_sub a b = dbl (a - b)"

definition js_mul :: "rat \<Rightarrow> rat \<Rightarrow> rat" where
  "js_mul a b = dbl (a * b)"

text \<open>Division by a non-zero number; the services guard every division.\<close>

definition js_div :: "rat \<Rightarrow> rat \<Rightarrow> rat" where
  "js_div a b = dbl (a / b)"

text \<open>\<open>Math.round\<close>: the nearest integer, a tie going up.\<close>

definition Math_round :: "rat \<Rightarrow> int" where
  "Math_round x = \<lfloor>x + 1 / 2\<rfloor>"

subsection \<open>Strings\<close>

text \<open>
  A string is a list of code units below 256: the characters \<open>U+0000\<close> to \<open>U+00FF\<close>, each
  one code unit. \<open>toLowerCase\<close> maps \<open>A\<close> to \<open>Z\<close> and the letters \<open>U+00C0\<close> to \<open>U+00DE\<close>
  (all but the multiplication sign \<open>U+00D7\<close>) 32 places up. \<open>toUpperCase\<close> maps \<open>a\<close> to \<open>z\<close>
  and the letters \<open>U+00E0\<close> to \<open>U+00FE\<close> (all but the division sign \<open>U+00F7\<close>) 32 places
  down, and the sharp s \<open>U+00DF\<close> to \<open>SS\<close>; the upper case of \<open>U+00B5\<close> and of \<open>U+00FF\<close> has no
  code unit below 256, and these two are kept: the services compare an upper-cased string
  with ASCII literals and match it against ASCII patterns only.
\<close>

definition upper_char :: "char \<Rightarrow> char" where
  "upper_char c =
     (let n = (of_char c :: nat)
      in if (97 \<le> n \<and> n \<le> 122) \<or> (224 \<le> n \<and> n \<le> 254 \<and> n \<noteq> 247) then char_of (n - 32)
         else c)"

definition lower_char :: "char \<Rightarrow> char" where
  "lower_char c =
     (let n = (of_char c :: nat)
      in if (65 \<le> n \<and> n \<le> 90) \<or> (192 \<le> n \<and> n \<le> 222 \<and> n \<noteq> 215) then char_of (n + 32)
         else c)"

definition upper_chars :: "char \<Rightarrow> string" where
  "upper_chars c = (if c = CHR 0xDF then ''SS'' else [upper_char c])"

definition toUpperCase :: "string \<Rightarrow> string" where
  "toUpperCase s = concat (map upper_chars s)"

definition toLowerCase :: "string \<Rightarrow> string" where
  "toLowerCase s = map lower_char s"

text \<open>
  The white space that \<open>trim\<close> strips and \<open>\s\<close> matches: among the code units below 256 these
  are TAB, LF, VT, FF, CR, the space and the no-break space \<open>U+00A0\<close>.
\<close>

definition is_space :: "char \<Rightarrow> bool" where
  "is_space c = (let n = (of_char c :: nat) in n = 32 \<or> (9 \<le> n \<and> n \<le> 13) \<or> n = 160)"

definition trim :: "string \<Rightarrow> string" where
  "trim s = rev (dropWhile is_space (rev (dropWhile is_space s)))"

text \<open>\<open>s.replace(/\s+/g, ' ')\<close>: every maximal run of white space becomes one blank.\<close>

function collapse_spaces :: "string \<Rightarrow> string" where
  "collapse_spaces [] = []"
| "collapse_spaces (c # cs) =
     (if is_space c then CHR '' '' # collapse_spaces (dropWhile is_space cs)
      else c # collapse_spaces cs)"
  by pat_completeness auto
termination
  by (relation "measure length") (auto simp: le_imp_less_Suc length_dropWhile_le)

definition normalizeWhitespace :: "string \<Rightarrow> string" where
  "normalizeWhitespace v = trim (collapse_spaces v)"

fun startsWith :: "string \<Rightarrow> string \<Rightarrow> bool" where
  "startsWith s [] = True"
| "startsWith [] (c # cs) = False"
| "startsWith (x # xs) (c # cs) = (x = c \<and> startsWith xs cs)"

text \<open>\<open>s.includes(sub)\<close>.\<close>

fun js_includes :: "string \<Rightarrow> string \<Rightarrow> bool" where
  "js_includes [] sub = (sub = [])"
| "js_includes (x # xs) sub = (startsWith (x # xs) sub \<or> js_includes xs sub)"

definition endsWith :: "string \<Rightarrow> string \<Rightarrow> bool" where
  "endsWith s suffix = startsWith (rev s) (rev suffix)"

text \<open>The character classes \<open>[0-9]\<close> and \<open>[A-Za-z0-9]\<close>.\<close>

definition is_digit :: "char \<Rightarrow> bool" where
  "is_digit c = (let n = (of_char c :: nat) in 48 \<le> n \<and> n \<le> 57)"

definition is_alnum :: "char \<Rightarrow> bool" where
  "is_alnum c =
     (let n = (of_char c :: nat)
      in (48 \<le> n \<and> n \<le> 57) \<or> (65 \<le> n \<and> n \<le> 90) \<or> (97 \<le> n \<and> n \<le> 122))"

section \<open>Data model\<close>

text \<open>An \<open>Offer\<close> row of the store. Prices are integer cents.\<close>

record offer =
  offer_id :: string
  vendorId :: string
  vendorName :: string
  productId :: string
  title :: string
  priceCents :: int
  shippingCents :: int
  etaDays :: int
  inStock :: bool
  productUrl :: string

section \<open>Offer normalizer (offerService.js)\<close>

record normalized_offer = offer +
  listingVerified :: bool
  listingType :: string
  itemCondition :: "string option"

definition isLikelySearchUrl :: "string \<Rightarrow> bool" where
  "isLikelySearchUrl url =
     (let u = toLowerCase url
      in js_includes u ''/s?'' \<or> js_includes u ''/search'' \<or> js_includes u ''?q=''
         \<or> js_includes u ''&q='' \<or> js_includes u ''_nkw='')"

definition isExactListingUrl :: "string \<Rightarrow> bool" where
  "isExactListingUrl url =
     (let u = toLowerCase url
      in js_includes u ''/dp/'' \<or> js_includes u ''/gp/product/'' \<or> js_includes u ''/itm/''
         \<or> js_includes u ''walmart.com/ip/'' \<or> js_includes u ''target.com/p/''
         \<or> js_includes u ''bestbuy.com/site/'')"

definition normalizeOffer :: "offer \<Rightarrow> normalized_offer" where
  "normalizeOffer dbOffer =
     (let url = trim (productUrl dbOffer);
          verified = (isExactListingUrl url \<and> \<not> isLikelySearchUrl url);
          ltype = (if verified then ''EXACT'' else if url \<noteq> [] then ''ESTIMATED'' else ''ESTIMATED'')
      in \<lparr>offer_id = offer_id dbOffer,
          vendorId = vendorId dbOffer,
          vendorName = vendorName dbOffer,
          productId = productId dbOffer,
          title = title dbOffer,
          priceCents = priceCents dbOffer,
          shippingCents = shippingCents dbOffer,
          etaDays = etaDays dbOffer,
          inStock = inStock dbOffer,
          productUrl = url,
          listingVerified = verified,
          listingType = ltype,
          itemCondition = None\<rparr>)"

text \<open>The generic search-query markers of a URL, as written.\<close>

definition hasSearchMarker :: "string \<Rightarrow> bool" where
  "hasSearchMarker url =
     (js_includes url ''/s?'' \<or> js_includes url ''/search'' \<or> js_includes url ''?q=''
        \<or> js_includes url ''&q='' \<or> js_includes url ''_nkw='')"

section \<open>Ranking policy (offerService.js)\<close>

text \<open>
  \<open>Array.prototype.sort\<close> is a stable sort driven by a comparator that returns a number:
  an element goes before the first element it does not compare greater than.
\<close>

fun insert_by :: "('a \<Rightarrow> 'a \<Rightarrow> int) \<Rightarrow> 'a \<Rightarrow> 'a list \<Rightarrow> 'a list" where
  "insert_by cmp x [] = [x]"
| "insert_by cmp x (y # ys) = (if cmp x y \<le> 0 then x # y # ys else y # insert_by cmp x ys)"

definition js_sort :: "('a \<Rightarrow> 'a \<Rightarrow> int) \<Rightarrow> 'a list \<Rightarrow> 'a list" where
  "js_sort cmp xs = foldr (insert_by cmp) xs []"

text \<open>The comparator passed to \<open>sort\<close> in \<open>recommendedOfferIdForStrategy\<close>.\<close>

definition compareOffers :: "string \<Rightarrow> ('a offer_scheme) \<Rightarrow> ('a offer_scheme) \<Rightarrow> int" where
  "compareOffers pref a b =
     (let ta = priceCents a + shippingCents a;
          tb = priceCents b + shippingCents b
      in if pref = ''FASTEST_SHIPPING'' then
           (if etaDays a \<noteq> etaDays b then etaDays a - etaDays b else ta - tb)
         else if pref = ''BEST_PRICE'' then
           (if ta \<noteq> tb then ta - tb else etaDays a - etaDays b)
         else
           (if ta \<noteq> tb then ta - tb else etaDays a - etaDays b))"

text \<open>
  \<open>recommendedOfferIdForStrategy(offers, strategy)\<close>. A missing strategy is the empty string;
  \<open>sorted[0]?.id || null\<close> yields \<open>null\<close> for an empty id.
\<close>

definition recommendedOfferIdForStrategy :: "('a offer_scheme) list \<Rightarrow> string \<Rightarrow> string option" where
  "recommendedOfferIdForStrategy offers strategy =
     (let list = filter inStock offers in
      if length list = 0 then None
      else
        let pref = toUpperCase (if strategy = [] then ''BALANCED'' else strategy);
            sorted = js_sort (compareOffers pref) list
        in (case sorted of
              [] \<Rightarrow> None
            | first # _ \<Rightarrow> (if offer_id first = [] then None else Some (offer_id first))))"

text \<open>The sort key of \<open>BEST_PRICE\<close>: total first, then ETA.\<close>

definition total :: "('a offer_scheme) \<Rightarrow> int" where
  "total a = priceCents a + shippingCents a"

definition price_key_le :: "('a offer_scheme) \<Rightarrow> ('a offer_scheme) \<Rightarrow> bool" where
  "price_key_le a b = (total a < total b \<or> (total a = total b \<and> etaDays a \<le> etaDays b))"

definition price_key_eq :: "('a offer_scheme) \<Rightarrow> ('a offer_scheme) \<Rightarrow> bool" where
  "price_key_eq a b = (total a = total b \<and> etaDays a = etaDays b)"

section \<open>Store\<close>

text \<open>
  The tables of the store reached through \<open>prisma\<close>, in row order. \<open>findMany\<close> returns the
  matching rows in that order, \<open>update\<close> rewrites the row with the given primary key.
\<close>

record product =
  product_id :: string
  product_title :: string
  brand :: string

record watch_item =
  watch_id :: string
  userId :: string
  watch_productId :: string
  pctDropThreshold :: rat
  targetPriceCents :: "int option"
  shippingImprovementOn :: bool
  preferredOfferId :: "string option"
  preferredVendorId :: "string option"
  preferredVendorName :: "string option"
  preferredProductUrl :: "string option"
  lastSeenBestPriceCents :: "int option"
  lastSeenBestEtaDays :: "int option"
  lastNotifiedAt :: "nat option"

record payload =
  payload_watchlistId :: string
  payload_productId :: string
  bestOfferId :: string
  payload_priceCents :: int
  payload_etaDays :: int
  payload_dropPct :: rat

record pending_notification =
  notification_userId :: string
  notification_productId :: string
  notification_type :: string
  notification_payload :: payload

record store =
  available :: bool
  product_table :: "product list"
  offer_table :: "offer list"
  watchlist_table :: "watch_item list"
  notification_table :: "pending_notification list"
  next_id :: nat

section \<open>Price-drift simulator and alert engine (priceMonitor.js)\<close>

text \<open>\<open>randomPercent(min, max)\<close>, with the value \<open>r\<close> drawn by \<open>Math.random()\<close>.\<close>

definition randomPercent :: "rat \<Rightarrow> rat \<Rightarrow> rat \<Rightarrow> rat" where
  "randomPercent r mn mx = js_add mn (js_mul r (js_sub mx mn))"

definition clamp :: "int \<Rightarrow> int \<Rightarrow> int \<Rightarrow> int" where
  "clamp v mn mx = max mn (min v mx)"

text \<open>
  \<open>getBestOfferForProduct(productId)\<close>: the in-stock offers of the product, reduced from
  \<open>null\<close>.
\<close>

definition betterOffer :: "offer option \<Rightarrow> offer \<Rightarrow> offer option" where
  "betterOffer best nxt =
     (case best of
        None \<Rightarrow> Some nxt
      | Some b \<Rightarrow>
          (let bestTotal = priceCents b + shippingCents b;
               nextTotal = priceCents nxt + shippingCents nxt
           in if nextTotal < bestTotal then Some nxt
              else if nextTotal = bestTotal \<and> etaDays nxt < etaDays b then Some nxt
              else Some b))"

definition getBestOfferForProduct :: "store \<Rightarrow> string \<Rightarrow> offer option" where
  "getBestOfferForProduct s pid =
     (let found = filter (\<lambda>r. productId r = pid \<and> inStock r) (offer_table s)
      in if length found = 0 then None else foldl betterOffer None found)"

text \<open>
  The body of the loop over the offers. The random source \<open>rnd\<close> lists the successive values
  of \<open>Math.random()\<close>; \<open>k\<close> counts the draws made so far. The result is the new price, the
  new ETA and the draw count after the iteration.
\<close>

definition tickOffer :: "(nat \<Rightarrow> rat) \<Rightarrow> nat \<Rightarrow> offer \<Rightarrow> int \<times> int \<times> nat" where
  "tickOffer rnd k offer =
     (let drift = randomPercent (rnd k) (dbl (- 2 / 100)) (dbl (2 / 100));
          newPrice = clamp (Math_round (js_mul (of_int (priceCents offer)) (js_add 1 drift))) 50 500000;
          shifted = (rnd (k + 1) < dbl (2 / 10));
          etaShift = (if shifted then (if rnd (k + 2) < dbl (5 / 10) then - 1 else 1) else 0);
          newEta = clamp (etaDays offer + etaShift) 1 10
      in (newPrice, newEta, if shifted then k + 3 else k + 2))"

text \<open>\<open>prisma.offer.update({ where: { id }, data: { priceCents, etaDays } })\<close>.\<close>

definition updateOffer :: "string \<Rightarrow> int \<Rightarrow> int \<Rightarrow> offer list \<Rightarrow> offer list" where
  "updateOffer oid newPrice newEta rows =
     map (\<lambda>r. if offer_id r = oid then r\<lparr>priceCents := newPrice, etaDays := newEta\<rparr> else r) rows"

record changed_item =
  changed_offerId :: string
  changed_productId :: string
  oldPriceCents :: int
  newPriceCents :: int
  oldEtaDays :: int
  newEtaDays :: int

fun tickOffers :: "(nat \<Rightarrow> rat) \<Rightarrow> nat \<Rightarrow> offer list \<Rightarrow> store \<Rightarrow> changed_item list \<times> store" where
  "tickOffers rnd k [] s = ([], s)"
| "tickOffers rnd k (offer # rest) s =
     (let (newPrice, newEta, k') = tickOffer rnd k offer;
          s' = s\<lparr>offer_table := updateOffer (offer_id offer) newPrice newEta (offer_table s)\<rparr>;
          (changed, s'') = tickOffers rnd k' rest s'
      in (\<lparr>changed_offerId = offer_id offer, changed_productId = productId offer,
            oldPriceCents = priceCents offer, newPriceCents = newPrice,
            oldEtaDays = etaDays offer, newEtaDays = newEta\<rparr> # changed, s''))"

text \<open>The alert rule of one watch item against the best offer of its product.\<close>

definition baseline :: "watch_item \<Rightarrow> offer \<Rightarrow> int" where
  "baseline item bestOffer =
     (case lastSeenBestPriceCents item of
        None \<Rightarrow> priceCents bestOffer
      | Some v \<Rightarrow> if v = 0 then priceCents bestOffer else v)"

definition dropPct :: "watch_item \<Rightarrow> offer \<Rightarrow> rat" where
  "dropPct item bestOffer =
     (let b = baseline item bestOffer
      in if 0 < b then js_mul (js_div (of_int (b - priceCents bestOffer)) (of_int b)) 100 else 0)"

definition targetHit :: "watch_item \<Rightarrow> offer \<Rightarrow> bool" where
  "targetHit item bestOffer =
     (case targetPriceCents item of
        None \<Rightarrow> False
      | Some t \<Rightarrow> t \<noteq> 0 \<and> priceCents bestOffer \<le> t)"

definition shippingImproved :: "watch_item \<Rightarrow> offer \<Rightarrow> bool" where
  "shippingImproved item bestOffer =
     (shippingImprovementOn item \<and>
      (case lastSeenBestEtaDays item of None \<Rightarrow> False | Some e \<Rightarrow> etaDays bestOffer < e))"

definition shouldNotify :: "watch_item \<Rightarrow> offer \<Rightarrow> bool" where
  "shouldNotify item bestOffer =
     (pctDropThreshold item \<le> dropPct item bestOffer \<or> targetHit item bestOffer
        \<or> shippingImproved item bestOffer)"

text \<open>\<open>Number(x.toFixed(1))\<close>: one decimal, a tie going away from zero, read back as a double.\<close>

definition toFixed1 :: "rat \<Rightarrow> rat" where
  "toFixed1 x =
     (let n = \<lfloor>\<bar>x\<bar> * 10 + 1 / 2\<rfloor>; v = dbl (of_int n / 10) in if x < 0 then - v else v)"

text \<open>
  \<open>prisma.watchlist.update\<close> after an alert. The clock read by \<open>new Date()\<close> is the
  parameter \<open>now\<close>.
\<close>

definition updateWatch :: "string \<Rightarrow> nat \<Rightarrow> int \<Rightarrow> int \<Rightarrow> watch_item list \<Rightarrow> watch_item list" where
  "updateWatch wid now price eta rows =
     map (\<lambda>w. if watch_id w = wid
               then w\<lparr>lastSeenBestPriceCents := Some price, lastSeenBestEtaDays := Some eta,
                       lastNotifiedAt := Some now\<rparr>
               else w) rows"

record notification =
  watchlistId :: string
  notified_payload :: payload

definition alertPayload :: "watch_item \<Rightarrow> offer \<Rightarrow> payload" where
  "alertPayload item bestOffer =
     \<lparr>payload_watchlistId = watch_id item,
      payload_productId = watch_productId item,
      bestOfferId = offer_id bestOffer,
      payload_priceCents = priceCents bestOffer,
      payload_etaDays = etaDays bestOffer,
      payload_dropPct = toFixed1 (dropPct item bestOffer)\<rparr>"

text \<open>
  The two writes of a firing iteration: \<open>queueNotification\<close> appends the pending
  notification, then the watch item gets its new baseline and notification time.
\<close>

definition recordAlert :: "nat \<Rightarrow> watch_item \<Rightarrow> offer \<Rightarrow> store \<Rightarrow> store" where
  "recordAlert now item bestOffer s =
     s\<lparr>notification_table := notification_table s @
          [\<lparr>notification_userId = userId item,
            notification_productId = watch_productId item,
            notification_type = ''DEAL_ALERT'',
            notification_payload = alertPayload item bestOffer\<rparr>],
        watchlist_table := updateWatch (watch_id item) now (priceCents bestOffer)
          (etaDays bestOffer) (watchlist_table s)\<rparr>"

text \<open>
  The loop over the watch items. The message text is a rendering of the payload fields and
  the product title; only the structured part of a notification is kept here.
\<close>

fun tickWatchItems :: "nat \<Rightarrow> watch_item list \<Rightarrow> store \<Rightarrow> notification list \<times> store" where
  "tickWatchItems now [] s = ([], s)"
| "tickWatchItems now (item # rest) s =
     (case getBestOfferForProduct s (watch_productId item) of
        None \<Rightarrow> tickWatchItems now rest s
      | Some bestOffer \<Rightarrow>
          if \<not> shouldNotify item bestOffer then tickWatchItems now rest s
          else
            let (ns, s') = tickWatchItems now rest (recordAlert now item bestOffer s)
            in (\<lparr>watchlistId = watch_id item,
                  notified_payload = alertPayload item bestOffer\<rparr> # ns, s'))"

record tick_result =
  changedItems :: "changed_item list"
  notifications :: "notification list"

definition runPriceTick :: "(nat \<Rightarrow> rat) \<Rightarrow> nat \<Rightarrow> store \<Rightarrow> tick_result \<times> store" where
  "runPriceTick rnd now s =
     (let (changed, s1) = tickOffers rnd 0 (offer_table s) s;
          (ns, s2) = tickWatchItems now (watchlist_table s1) s1
      in (\<lparr>changedItems = changed, notifications = ns\<rparr>, s2))"

text \<open>The store as the alert rules see it: after the drift of every offer.\<close>

definition driftedStore :: "(nat \<Rightarrow> rat) \<Rightarrow> store \<Rightarrow> store" where
  "driftedStore rnd s = snd (tickOffers rnd 0 (offer_table s) s)"

text \<open>The decision of the loop body for one watch item: is a notification queued?\<close>

definition alertFires :: "store \<Rightarrow> watch_item \<Rightarrow> bool" where
  "alertFires s item =
     (case getBestOfferForProduct s (watch_productId item) of
        None \<Rightarrow> False
      | Some bestOffer \<Rightarrow> shouldNotify item bestOffer)"

text \<open>
  The rows a pass queues: the rows of the pending notifications after the pass that come
  behind the rows held before it.
\<close>

definition queued :: "store \<Rightarrow> store \<Rightarrow> pending_notification list" where
  "queued s s' = drop (length (notification_table s)) (notification_table s')"

section \<open>Provider results (webSearchProvider.js)\<close>

text \<open>
  What an awaited call can do besides returning: reject. A provider failure is any rejection
  of an outbound call (network error, timeout, non-2xx status, unparseable payload).
\<close>

datatype error = ProviderFailure | UniqueConstraintViolation | StorageUnavailable

record config =
  enableWebSearchOffers :: bool
  enableSerpApiProxy :: bool
  serpApiApiKey :: string

text \<open>
  A price in cents is a double: an integer after \<open>Math.round\<close>, or \<open>Infinity\<close> when the
  amount times 100 leaves the double range.
\<close>

datatype cents = Cents int | Infinity

text \<open>A candidate offer, as the adapters return it.\<close>

record candidate =
  cand_vendorId :: string
  cand_vendorName :: string
  cand_title :: string
  cand_priceCents :: "cents option"
  cand_shippingCents :: int
  cand_etaDays :: int
  cand_inStock :: bool
  cand_productUrl :: string
  cand_listingVerified :: bool
  cand_listingType :: string
  cand_rank :: nat
  cand_asin :: string

text \<open>The closing filter of \<open>fetchTopOffers\<close>: one candidate per vendor id, the first one.\<close>

fun uniqueVendors :: "string list \<Rightarrow> candidate list \<Rightarrow> candidate list" where
  "uniqueVendors seen [] = []"
| "uniqueVendors seen (c # cs) =
     (if cand_vendorId c = [] then uniqueVendors seen cs
      else if cand_vendorId c \<in> set seen then uniqueVendors seen cs
      else c # uniqueVendors (cand_vendorId c # seen) cs)"

text \<open>
  \<open>fetchTopOffers({ query, strategy })\<close>. The two adapters are given by their settled
  results (\<open>Promise.allSettled\<close>): \<open>Inl\<close> is a rejection, \<open>Inr\<close> the value.
\<close>

definition fetchTopOffers ::
  "config \<Rightarrow> (string \<Rightarrow> string \<Rightarrow> error + candidate option)
     \<Rightarrow> (string \<Rightarrow> string \<Rightarrow> error + candidate list) \<Rightarrow> string \<Rightarrow> string \<Rightarrow> candidate list" where
  "fetchTopOffers cfg amazonAdapter shoppingAdapter query strategy =
     (if \<not> enableWebSearchOffers cfg then []
      else if \<not> enableSerpApiProxy cfg \<or> serpApiApiKey cfg = [] then []
      else
        let capped = normalizeWhitespace query in
        if capped = [] then []
        else
          let amazon = amazonAdapter capped strategy;
              shopping = shoppingAdapter capped strategy;
              out = (case amazon of Inr (Some v) \<Rightarrow> [v] | _ \<Rightarrow> [])
                    @ (case shopping of Inr vs \<Rightarrow> vs | Inl _ \<Rightarrow> [])
          in uniqueVendors [] out)"

section \<open>Provider adapters (webSearchProvider.js, brightDataProxyService.js)\<close>

subsection \<open>Values read from a provider payload\<close>

text \<open>
  A field of a search result is absent, a number or a string. A field converted by
  \<open>String(...)\<close> never shows a day count when it is a number, so only strings are scanned.
\<close>

datatype js_value = JNull | JNum rat | JStr string

definition js_truthy :: "js_value \<Rightarrow> bool" where
  "js_truthy v = (case v of JNull \<Rightarrow> False | JNum n \<Rightarrow> n \<noteq> 0 | JStr s \<Rightarrow> s \<noteq> [])"

definition js_or :: "js_value \<Rightarrow> js_value \<Rightarrow> js_value" where
  "js_or a b = (if js_truthy a then a else b)"

record serp_result =
  sr_title :: string
  sr_link :: string
  sr_snippet :: string
  sr_price :: js_value
  sr_extracted_price :: js_value
  sr_delivery :: js_value

text \<open>
  The detail payload of the product lookup, by the fields the service reads from it:
  the first non-empty title, the first non-empty link, the price text and the first positive
  numeric price, and the delivery text.
\<close>

record product_payload =
  pp_title :: string
  pp_link :: string
  pp_priceText :: string
  pp_extractedPrice :: "rat option"
  pp_delivery :: string

text \<open>
  The outbound calls of one aggregation cycle, by their outcomes: the two searches for a
  query and the product lookup for an ASIN. \<open>Inl\<close> is a rejected call.
\<close>

record world =
  amazonSearch :: "string \<Rightarrow> error + serp_result list"
  shoppingSearch :: "string \<Rightarrow> error + serp_result list"
  amazonProduct :: "string \<Rightarrow> error + product_payload"

text \<open>
  The URL parser of the platform, by the four ways the adapters use \<open>new URL(x)\<close>: the href
  after forcing \<open>https\<close> and clearing the fragment, the host name, the path name, and the
  href after clearing the query. \<open>None\<close> is the constructor throwing.
\<close>

record url_api =
  url_canonical :: "string \<Rightarrow> string option"
  url_hostname :: "string \<Rightarrow> string option"
  url_pathname :: "string \<Rightarrow> string option"
  url_without_search :: "string \<Rightarrow> string option"

subsection \<open>Prices and delivery estimates\<close>

text \<open>The rounded value leaves the double range: its binary exponent exceeds 1023.\<close>

definition overflows :: "rat \<Rightarrow> bool" where
  "overflows x = (dbl x \<noteq> 0 \<and> 1024 \<le> ilog2 \<bar>dbl x\<bar>)"

text \<open>\<open>toCents(amount)\<close> for a finite amount.\<close>

definition toCents :: "rat \<Rightarrow> cents option" where
  "toCents n =
     (if n \<le> 0 then None
      else if overflows (n * 100) then Some Infinity
      else Some (Cents (Math_round (js_mul n 100))))"

definition int_of_digits :: "string \<Rightarrow> int" where
  "int_of_digits ds = foldl (\<lambda>acc c. 10 * acc + ((of_char c :: int) - 48)) 0 ds"

text \<open>
  The first match of \<open>/(\d+(?:\.\d+)?)/\<close>: the integer digits and the fraction digits of the
  leftmost decimal number.
\<close>

definition firstNumber :: "string \<Rightarrow> (string \<times> string) option" where
  "firstNumber s =
     (let t = dropWhile (\<lambda>c. \<not> is_digit c) s in
      if t = [] then None
      else
        let ip = takeWhile is_digit t; rest = dropWhile is_digit t
        in case rest of
             c # r2 \<Rightarrow>
               if c = CHR ''.'' \<and> r2 \<noteq> [] \<and> is_digit (hd r2) then Some (ip, takeWhile is_digit r2)
               else Some (ip, [])
           | [] \<Rightarrow> Some (ip, []))"

text \<open>\<open>Number(text)\<close> of a decimal numeral, then \<open>toCents\<close>; an infinite number gives \<open>null\<close>.\<close>

definition centsOfDecimal :: "string \<times> string \<Rightarrow> cents option" where
  "centsOfDecimal m =
     (let v = (of_int (int_of_digits (fst m @ snd m)) :: rat) / 10 ^ length (snd m)
      in if overflows v then None else toCents (dbl v))"

definition parsePriceCents :: "js_value \<Rightarrow> cents option" where
  "parsePriceCents v =
     (case v of
        JNull \<Rightarrow> None
      | JNum n \<Rightarrow> toCents n
      | JStr s \<Rightarrow>
          (let raw = trim (filter (\<lambda>c. c \<noteq> CHR '','') s)
           in case firstNumber raw of None \<Rightarrow> None | Some m \<Rightarrow> centsOfDecimal m))"

text \<open>
  The first match of \<open>/(\d+)\s*(?:day|days)/\<close>: the leftmost run of digits that white space
  and the word \<open>day\<close> follow. \<open>run\<close> is the run of digits being read.
\<close>

fun dayCount :: "string \<Rightarrow> string \<Rightarrow> string option" where
  "dayCount run [] = None"
| "dayCount run (c # cs) =
     (if is_digit c then dayCount (run @ [c]) cs
      else if run \<noteq> [] \<and> startsWith (dropWhile is_space (c # cs)) ''day'' then Some run
      else dayCount [] cs)"

definition estimateEtaDaysFromText :: "js_value \<Rightarrow> int option" where
  "estimateEtaDaysFromText v =
     (case v of
        JStr s \<Rightarrow>
          (case dayCount [] (toLowerCase s) of
             None \<Rightarrow> None
           | Some run \<Rightarrow> Some (max 1 (min 14 (int_of_digits run))))
      | _ \<Rightarrow> None)"

subsection \<open>Vendor URLs\<close>

text \<open>The template \<open>https://www.amazon.com/dp/${asin}\<close> of both modules.\<close>

definition amazonDetailUrl :: "string \<Rightarrow> string" where
  "amazonDetailUrl asin = ''https://www.amazon.com/dp/'' @ asin"

definition is_word :: "char \<Rightarrow> bool" where
  "is_word c = (is_alnum c \<or> c = CHR ''_'')"

text \<open>
  The first match of \<open>/\/(?:dp|gp\/product)\/([A-Z0-9]{10})\b/i\<close>, in upper case; empty when
  there is none.
\<close>

definition asinBody :: "string \<Rightarrow> string option" where
  "asinBody t =
     (let a = take 10 t
      in if length a = 10 \<and> list_all is_alnum a
            \<and> (case drop 10 t of [] \<Rightarrow> True | d # _ \<Rightarrow> \<not> is_word d)
         then Some (toUpperCase a) else None)"

definition asinAt :: "string \<Rightarrow> string option" where
  "asinAt s =
     (let l = toLowerCase (take 12 s)
      in if startsWith l ''/dp/'' then asinBody (drop 4 s)
         else if startsWith l ''/gp/product/'' then asinBody (drop 12 s)
         else None)"

fun extractAmazonAsinFromUrl :: "string \<Rightarrow> string" where
  "extractAmazonAsinFromUrl [] = []"
| "extractAmazonAsinFromUrl (c # cs) =
     (case asinAt (c # cs) of Some a \<Rightarrow> a | None \<Rightarrow> extractAmazonAsinFromUrl cs)"

text \<open>The first match of \<open>/https?:\/\/(?:www\.)?ebay\.com\/itm\/(\d+)/i\<close>: the item digits.\<close>

definition ebayItemAt :: "string \<Rightarrow> string option" where
  "ebayItemAt s =
     (let l = toLowerCase (take 25 s) in
      if \<not> startsWith l ''http'' then None
      else
        let n1 = (if startsWith (drop 4 l) ''s'' then 5 else 4) in
        if \<not> startsWith (drop n1 l) ''://'' then None
        else
          let n2 = n1 + 3; n3 = (if startsWith (drop n2 l) ''www.'' then n2 + 4 else n2) in
          if \<not> startsWith (drop n3 l) ''ebay.com/itm/'' then None
          else
            let ds = takeWhile is_digit (drop (n3 + 13) s)
            in if ds = [] then None else Some ds)"

fun ebayItem :: "string \<Rightarrow> string option" where
  "ebayItem [] = None"
| "ebayItem (c # cs) = (case ebayItemAt (c # cs) of Some ds \<Rightarrow> Some ds | None \<Rightarrow> ebayItem cs)"

definition hostnameFromUrl :: "url_api \<Rightarrow> string \<Rightarrow> string" where
  "hostnameFromUrl api url =
     (case url_hostname api url of
        None \<Rightarrow> []
      | Some h \<Rightarrow> (let l = toLowerCase h in if startsWith l ''www.'' then drop 4 l else l))"

definition canonicalizeUrl :: "url_api \<Rightarrow> string \<Rightarrow> string" where
  "canonicalizeUrl api url =
     (let raw = trim url in
      if raw = [] then []
      else case url_canonical api raw of None \<Rightarrow> raw | Some href \<Rightarrow> href)"

text \<open>The branch shared by Walmart, Target, Best Buy and Newegg: drop the query on a listing path.\<close>

definition dropQueryOn :: "url_api \<Rightarrow> string \<Rightarrow> string \<Rightarrow> string \<Rightarrow> string" where
  "dropQueryOn api host path raw =
     (case (url_hostname api raw, url_pathname api raw, url_without_search api raw) of
        (Some h, Some p, Some href) \<Rightarrow>
          if js_includes (toLowerCase h) host \<and> js_includes p path then href else raw
      | _ \<Rightarrow> raw)"

definition canonicalizeVendorUrl :: "url_api \<Rightarrow> string \<Rightarrow> string \<Rightarrow> string" where
  "canonicalizeVendorUrl api vendor url =
     (let raw = canonicalizeUrl api url in
      if raw = [] then []
      else if vendor = ''web:amazon'' then
        (let asin = extractAmazonAsinFromUrl raw
         in if asin \<noteq> [] then amazonDetailUrl asin else raw)
      else if vendor = ''web:ebay'' then
        (case ebayItem raw of Some ds \<Rightarrow> ''https://www.ebay.com/itm/'' @ ds | None \<Rightarrow> raw)
      else if vendor = ''web:walmart'' then dropQueryOn api ''walmart.com'' ''/ip/'' raw
      else if vendor = ''web:target'' then dropQueryOn api ''target.com'' ''/p/'' raw
      else if vendor = ''web:bestbuy'' then dropQueryOn api ''bestbuy.com'' ''/site/'' raw
      else if vendor = ''web:newegg'' then dropQueryOn api ''newegg.com'' ''/p/'' raw
      else raw)"

text \<open>\<open>isExactListingUrl\<close> of the provider module.\<close>

definition isExactListingUrl_provider :: "url_api \<Rightarrow> string \<Rightarrow> bool" where
  "isExactListingUrl_provider api url =
     (let u = toLowerCase url in
      if \<not> startsWith u ''http'' then False
      else if js_includes u ''/s?'' \<or> js_includes u ''/search'' \<or> js_includes u ''?q=''
              \<or> js_includes u ''&q='' \<or> js_includes u ''_nkw='' then False
      else if js_includes u ''/dp/'' \<or> js_includes u ''/gp/product/'' \<or> js_includes u ''/itm/''
              \<or> js_includes u ''walmart.com/ip/'' \<or> js_includes u ''target.com/p/''
              \<or> js_includes u ''bestbuy.com/site/'' \<or> js_includes u ''newegg.com/p/'' then True
      else case url_pathname api u of None \<Rightarrow> False | Some p \<Rightarrow> 2 \<le> length p)"

subsection \<open>Candidates\<close>

text \<open>
  The sign of \<open>a - b\<close> on prices, as \<open>sort\<close> reads a comparator: \<open>Infinity - Infinity\<close> is
  \<open>NaN\<close>, which \<open>sort\<close> takes as \<open>0\<close>.
\<close>

definition cents_diff :: "cents \<Rightarrow> cents \<Rightarrow> int" where
  "cents_diff a b =
     (case (a, b) of
        (Cents x, Cents y) \<Rightarrow> x - y
      | (Infinity, Cents y) \<Rightarrow> 1
      | (Cents x, Infinity) \<Rightarrow> - 1
      | (Infinity, Infinity) \<Rightarrow> 0)"

text \<open>\<open>c.priceCents || 1e12\<close>, \<open>(c.priceCents || 1e12) + (c.shippingCents || 0)\<close>, \<open>c.etaDays || 99\<close>.\<close>

definition priceOr :: "candidate \<Rightarrow> cents" where
  "priceOr c =
     (case cand_priceCents c of
        None \<Rightarrow> Cents (10 ^ 12)
      | Some Infinity \<Rightarrow> Infinity
      | Some (Cents p) \<Rightarrow> if p = 0 then Cents (10 ^ 12) else Cents p)"

definition totalOr :: "candidate \<Rightarrow> cents" where
  "totalOr c =
     (case priceOr c of
        Infinity \<Rightarrow> Infinity
      | Cents p \<Rightarrow> Cents (p + cand_shippingCents c))"

definition etaOr :: "candidate \<Rightarrow> int" where
  "etaOr c = (if cand_etaDays c = 0 then 99 else cand_etaDays c)"

definition pickBestOffer :: "candidate list \<Rightarrow> string \<Rightarrow> candidate option" where
  "pickBestOffer offers strategy =
     (if length offers = 0 then None
      else
        let pref = toUpperCase (if strategy = [] then ''BALANCED'' else strategy);
            sorted =
              (if pref = ''FASTEST_SHIPPING'' then js_sort (\<lambda>a b. etaOr a - etaOr b) offers
               else if pref = ''BEST_PRICE'' then js_sort (\<lambda>a b. cents_diff (priceOr a) (priceOr b)) offers
               else js_sort (\<lambda>a b. if totalOr a \<noteq> totalOr b then cents_diff (totalOr a) (totalOr b)
                                     else etaOr a - etaOr b) offers)
        in case sorted of [] \<Rightarrow> None | best # _ \<Rightarrow> Some best)"

definition normalizeOfferBase ::
  "string \<Rightarrow> string \<Rightarrow> string \<Rightarrow> string \<Rightarrow> cents option \<Rightarrow> int \<Rightarrow> candidate" where
  "normalizeOfferBase vendor vname ttl url price eta =
     \<lparr>cand_vendorId = vendor,
      cand_vendorName = vname,
      cand_title = normalizeWhitespace ttl,
      cand_priceCents = (case price of Some (Cents p) \<Rightarrow> Some (Cents p) | _ \<Rightarrow> None),
      cand_shippingCents = 0,
      cand_etaDays = eta,
      cand_inStock = True,
      cand_productUrl = trim url,
      cand_listingVerified = False,
      cand_listingType = ''ESTIMATED'',
      cand_rank = 0,
      cand_asin = []\<rparr>"

text \<open>\<open>a || b\<close> on prices and on day counts.\<close>

definition cents_or :: "cents option \<Rightarrow> cents option \<Rightarrow> cents option" where
  "cents_or a b = (case a of None \<Rightarrow> b | Some (Cents p) \<Rightarrow> if p = 0 then b else a | Some Infinity \<Rightarrow> a)"

definition days_or :: "int option \<Rightarrow> int \<Rightarrow> int" where
  "days_or a b = (case a of None \<Rightarrow> b | Some d \<Rightarrow> if d = 0 then b else d)"

subsection \<open>The Amazon adapter\<close>

definition valid_asin :: "string \<Rightarrow> bool" where
  "valid_asin a = (length a = 10 \<and> list_all (\<lambda>c. is_alnum c \<and> upper_char c = c) a)"

definition canonicalAmazonProductUrl :: "string \<Rightarrow> string \<Rightarrow> string" where
  "canonicalAmazonProductUrl asin rawLink =
     (let cleanAsin = toUpperCase (trim asin) in
      if valid_asin cleanAsin then amazonDetailUrl cleanAsin
      else
        let link = trim rawLink
        in if link = [] then [] else if \<not> startsWith link ''http'' then [] else link)"

record amazon_detail =
  detail_asin :: string
  detail_title :: string
  detail_link :: string
  detail_priceText :: string
  detail_extractedPrice :: "rat option"
  detail_delivery :: string

text \<open>\<open>fetchAmazonProductViaSerpApi({ asin })\<close>: \<open>null\<close> for an ill-formed ASIN, else the lookup.\<close>

definition fetchAmazonProductViaSerpApi :: "world \<Rightarrow> string \<Rightarrow> error + amazon_detail option" where
  "fetchAmazonProductViaSerpApi w asin =
     (let normalizedAsin = toUpperCase (trim asin) in
      if \<not> valid_asin normalizedAsin then Inr None
      else case amazonProduct w normalizedAsin of
        Inl e \<Rightarrow> Inl e
      | Inr payload \<Rightarrow>
          Inr (Some \<lparr>detail_asin = normalizedAsin,
                     detail_title = normalizeWhitespace (pp_title payload),
                     detail_link = canonicalAmazonProductUrl normalizedAsin (pp_link payload),
                     detail_priceText = pp_priceText payload,
                     detail_extractedPrice = pp_extractedPrice payload,
                     detail_delivery = normalizeWhitespace (pp_delivery payload)\<rparr>))"

text \<open>The seed candidates of the Amazon search, one per result whose link carries an ASIN.\<close>

fun amazonCandidates :: "url_api \<Rightarrow> nat \<Rightarrow> serp_result list \<Rightarrow> candidate list" where
  "amazonCandidates api idx [] = []"
| "amazonCandidates api idx (r # rs) =
     (let asin = extractAmazonAsinFromUrl (sr_link r) in
      if asin = [] then amazonCandidates api (Suc idx) rs
      else
        let eta = days_or (estimateEtaDaysFromText (js_or (sr_delivery r) (JStr (sr_snippet r)))) 4
        in (normalizeOfferBase ''web:amazon'' ''Amazon'' (sr_title r)
              (canonicalizeVendorUrl api ''web:amazon'' (sr_link r))
              (parsePriceCents (js_or (sr_extracted_price r) (sr_price r))) eta)
             \<lparr>cand_rank := idx, cand_asin := asin\<rparr>
           # amazonCandidates api (Suc idx) rs)"

text \<open>The hydration of the best seed from the product lookup.\<close>

definition hydrateAmazon :: "url_api \<Rightarrow> candidate \<Rightarrow> amazon_detail option \<Rightarrow> candidate" where
  "hydrateAmazon api bestSeed detail =
     (let price =
            cents_or (case detail of
                        None \<Rightarrow> None
                      | Some d \<Rightarrow> (case detail_extractedPrice d of
                                     None \<Rightarrow> None
                                   | Some x \<Rightarrow> if 0 < x then toCents x else None))
              (cents_or (case detail of None \<Rightarrow> None
                                      | Some d \<Rightarrow> parsePriceCents (JStr (detail_priceText d)))
                 (cand_priceCents bestSeed));
          eta = days_or (case detail of None \<Rightarrow> None
                                      | Some d \<Rightarrow> estimateEtaDaysFromText (JStr (detail_delivery d)))
                  (days_or (Some (cand_etaDays bestSeed)) 4);
          link = (case detail of None \<Rightarrow> [] | Some d \<Rightarrow> detail_link d);
          url = trim (if link \<noteq> [] then link else cand_productUrl bestSeed);
          ttl = (case detail of None \<Rightarrow> [] | Some d \<Rightarrow> normalizeWhitespace (detail_title d))
      in bestSeed
           \<lparr>cand_title := (if ttl \<noteq> [] then ttl else cand_title bestSeed),
            cand_priceCents := price,
            cand_etaDays := eta,
            cand_productUrl := canonicalizeVendorUrl api ''web:amazon''
                                 (if url \<noteq> [] then url else cand_productUrl bestSeed),
            cand_listingVerified := (url \<noteq> [] \<and> js_includes url ''/dp/''),
            cand_listingType := (if url \<noteq> [] \<and> js_includes url ''/dp/'' then ''EXACT''
                                 else cand_listingType bestSeed)\<rparr>)"

text \<open>
  \<open>fetchAmazonOffer(query, strategy)\<close>. A rejected search rejects the adapter; a rejected
  product lookup is caught and the seed returned.
\<close>

definition fetchAmazonOffer :: "url_api \<Rightarrow> world \<Rightarrow> string \<Rightarrow> string \<Rightarrow> error + candidate option" where
  "fetchAmazonOffer api w query strategy =
     (case amazonSearch w query of
        Inl e \<Rightarrow> Inl e
      | Inr serp \<Rightarrow>
          (case pickBestOffer (amazonCandidates api 0 serp) strategy of
             None \<Rightarrow> Inr None
           | Some bestSeed \<Rightarrow>
               (case fetchAmazonProductViaSerpApi w (cand_asin bestSeed) of
                  Inl e \<Rightarrow> Inr (Some bestSeed)
                | Inr detail \<Rightarrow> Inr (Some (hydrateAmazon api bestSeed detail)))))"

subsection \<open>The shopping adapter\<close>

text \<open>The retailer of a host name and the path marker its listing links carry.\<close>

definition knownRetailer :: "string \<Rightarrow> (string \<times> string \<times> string) option" where
  "knownRetailer host =
     (if endsWith host ''ebay.com'' then Some (''web:ebay'', ''eBay'', ''/itm/'')
      else if endsWith host ''walmart.com'' then Some (''web:walmart'', ''Walmart'', ''/ip/'')
      else if endsWith host ''target.com'' then Some (''web:target'', ''Target'', ''/p/'')
      else if endsWith host ''bestbuy.com'' then Some (''web:bestbuy'', ''Best Buy'', ''/site/'')
      else if endsWith host ''newegg.com'' then Some (''web:newegg'', ''Newegg'', ''/p/'')
      else None)"

text \<open>The body of the \<open>map\<close> over the shopping results; \<open>None\<close> is a dropped result.\<close>

definition shoppingCandidate :: "url_api \<Rightarrow> nat \<Rightarrow> serp_result \<Rightarrow> candidate option" where
  "shoppingCandidate api idx r =
     (let link = trim (sr_link r) in
      if \<not> isExactListingUrl_provider api link then None
      else
        let host = hostnameFromUrl api link in
        if host = [] then None
        else if js_includes host ''amazon.'' then None
        else case knownRetailer host of
          None \<Rightarrow> None
        | Some (vendor, vname, marker) \<Rightarrow>
            if \<not> js_includes link marker then None
            else
              let eta = days_or (estimateEtaDaysFromText (js_or (sr_delivery r) (JStr (sr_snippet r)))) 5
              in Some ((normalizeOfferBase vendor vname (sr_title r)
                          (canonicalizeVendorUrl api vendor link)
                          (parsePriceCents (js_or (sr_extracted_price r) (sr_price r))) eta)
                         \<lparr>cand_rank := idx\<rparr>))"

fun shoppingCandidates :: "url_api \<Rightarrow> nat \<Rightarrow> serp_result list \<Rightarrow> candidate list" where
  "shoppingCandidates api idx [] = []"
| "shoppingCandidates api idx (r # rs) =
     (case shoppingCandidate api idx r of
        None \<Rightarrow> shoppingCandidates api (Suc idx) rs
      | Some c \<Rightarrow>
          (case cand_priceCents c of
             Some (Cents p) \<Rightarrow>
               if 0 < p then c # shoppingCandidates api (Suc idx) rs
               else shoppingCandidates api (Suc idx) rs
           | _ \<Rightarrow> shoppingCandidates api (Suc idx) rs))"

text \<open>The loop that fills the remaining slots from the candidates sorted by price.\<close>

fun fillSlots :: "candidate list \<Rightarrow> string list \<Rightarrow> candidate list \<Rightarrow> candidate list" where
  "fillSlots [] seen out = out"
| "fillSlots (c # cs) seen out =
     (if cand_vendorId c \<in> set seen then fillSlots cs seen out
      else if 2 \<le> length (out @ [c]) then out @ [c]
      else fillSlots cs (cand_vendorId c # seen) (out @ [c]))"

definition fetchShoppingVendors :: "url_api \<Rightarrow> world \<Rightarrow> string \<Rightarrow> string \<Rightarrow> error + candidate list" where
  "fetchShoppingVendors api w query strategy =
     (case shoppingSearch w query of
        Inl e \<Rightarrow> Inl e
      | Inr serp \<Rightarrow>
          (let candidates = shoppingCandidates api 0 serp;
               ebay = pickBestOffer (filter (\<lambda>c. cand_vendorId c = ''web:ebay'') candidates) strategy;
               out = (case ebay of None \<Rightarrow> [] | Some e \<Rightarrow> [e]);
               seen = (case ebay of None \<Rightarrow> [] | Some e \<Rightarrow> [cand_vendorId e]);
               sorted = js_sort (\<lambda>a b. cents_diff (priceOr a) (priceOr b)) candidates
           in Inr (fillSlots sorted seen out)))"

section \<open>Offer aggregator (offerService.js)\<close>

definition findProduct :: "store \<Rightarrow> string \<Rightarrow> product option" where
  "findProduct s pid = find (\<lambda>p. product_id p = pid) (product_table s)"

text \<open>
  The store assigns the primary key of a new row. Keys are modelled as a counter rendered in
  decimal behind a fixed prefix; they are never empty.
\<close>

definition digit_char :: "nat \<Rightarrow> char" where
  "digit_char n = char_of (48 + n)"

function string_of_nat :: "nat \<Rightarrow> string" where
  "string_of_nat n = (if n < 10 then [digit_char n] else string_of_nat (n div 10) @ [digit_char (n mod 10)])"
  by pat_completeness auto
termination
  by (relation "measure id") auto

definition new_offer_id :: "nat \<Rightarrow> string" where
  "new_offer_id n = ''offer-'' @ string_of_nat n"

text \<open>
  \<open>prisma.offer.create\<close>: rows are unique per \<open>(productId, vendorId)\<close>, the compound key the
  upsert addresses as \<open>productId_vendorId\<close>; a second row for the pair is rejected.
\<close>

definition createOffer :: "offer \<Rightarrow> store \<Rightarrow> error + store" where
  "createOffer row s =
     (if list_ex (\<lambda>r. productId r = productId row \<and> vendorId r = vendorId row) (offer_table s)
      then Inl UniqueConstraintViolation
      else Inr (s\<lparr>offer_table := offer_table s @ [row\<lparr>offer_id := new_offer_id (next_id s)\<rparr>],
                  next_id := Suc (next_id s)\<rparr>))"

text \<open>
  The body of the \<open>map\<close> over the web offers: skip an incomplete candidate, else upsert.
  The store takes integers only: the write of an infinite price is rejected, and the
  rejection is settled by \<open>Promise.allSettled\<close>.
\<close>

definition upsertOffer :: "string \<Rightarrow> product \<Rightarrow> candidate \<Rightarrow> store \<Rightarrow> store" where
  "upsertOffer pid prow c s =
     (case cand_priceCents c of
        None \<Rightarrow> s
      | Some Infinity \<Rightarrow> s
      | Some (Cents price) \<Rightarrow>
          if cand_vendorId c = [] \<or> cand_productUrl c = [] \<or> price = 0 then s
          else
            let vname = (if cand_vendorName c = [] then cand_vendorId c else cand_vendorName c);
                ttl = (if cand_title c = [] then product_title prow else cand_title c);
                url = trim (cand_productUrl c);
                hit = (\<lambda>r. productId r = pid \<and> vendorId r = cand_vendorId c)
            in if list_ex hit (offer_table s)
               then s\<lparr>offer_table :=
                      map (\<lambda>r. if hit r
                                then r\<lparr>vendorName := vname, title := ttl, priceCents := price,
                                       shippingCents := cand_shippingCents c,
                                       etaDays := cand_etaDays c, inStock := cand_inStock c,
                                       productUrl := url\<rparr>
                                else r) (offer_table s)\<rparr>
               else s\<lparr>offer_table := offer_table s @
                       [\<lparr>offer_id = new_offer_id (next_id s), vendorId = cand_vendorId c,
                         vendorName = vname, productId = pid, title = ttl, priceCents = price,
                         shippingCents = cand_shippingCents c, etaDays = cand_etaDays c,
                         inStock = cand_inStock c, productUrl = url\<rparr>],
                      next_id := Suc (next_id s)\<rparr>)"

text \<open>
  \<open>encodeURIComponent\<close>: an unreserved character stays, any other is escaped by the bytes of
  its UTF-8 encoding, one byte below \<open>U+0080\<close> and two from there on.
\<close>

definition hex_digit :: "nat \<Rightarrow> char" where
  "hex_digit n = (if n < 10 then char_of (48 + n) else char_of (55 + n))"

definition percent_byte :: "nat \<Rightarrow> string" where
  "percent_byte b = [CHR ''%'', hex_digit (b div 16), hex_digit (b mod 16)]"

definition is_unreserved :: "char \<Rightarrow> bool" where
  "is_unreserved c = (is_alnum c \<or> c \<in> set ''-_.!~*()'' \<or> c = CHR 0x27)"

definition encodeURIComponent :: "string \<Rightarrow> string" where
  "encodeURIComponent s =
     concat (map (\<lambda>c. let n = (of_char c :: nat)
                       in if is_unreserved c then [c]
                          else if n < 128 then percent_byte n
                          else percent_byte (192 + n div 64) @ percent_byte (128 + n mod 64)) s)"

record fallback =
  fb_vendorId :: string
  fb_vendorName :: string
  fb_url :: string
  fb_priceMult :: rat
  fb_etaDays :: int

definition fallbacks :: "string \<Rightarrow> fallback list" where
  "fallbacks q =
     [\<lparr>fb_vendorId = ''fallback:ebay'', fb_vendorName = ''eBay'',
        fb_url = ''https://www.ebay.com/sch/i.html?_nkw='' @ q,
        fb_priceMult = dbl (92 / 100), fb_etaDays = 6\<rparr>,
      \<lparr>fb_vendorId = ''fallback:walmart'', fb_vendorName = ''Walmart'',
        fb_url = ''https://www.walmart.com/search?q='' @ q,
        fb_priceMult = dbl (98 / 100), fb_etaDays = 4\<rparr>,
      \<lparr>fb_vendorId = ''fallback:target'', fb_vendorName = ''Target'',
        fb_url = ''https://www.target.com/s?searchTerm='' @ q,
        fb_priceMult = dbl (103 / 100), fb_etaDays = 5\<rparr>,
      \<lparr>fb_vendorId = ''fallback:bestbuy'', fb_vendorName = ''Best Buy'',
        fb_url = ''https://www.bestbuy.com/site/searchpage.jsp?st='' @ q,
        fb_priceMult = dbl (105 / 100), fb_etaDays = 5\<rparr>]"

text \<open>
  The loop over the fallback vendors. \<open>seen\<close> is the set \<open>existingVendorIds\<close>, kept without
  duplicates. A rejected \<open>create\<close> leaves the loop with the error and the rows written so far.
\<close>

fun createFallbacks ::
  "product \<Rightarrow> string \<Rightarrow> int \<Rightarrow> fallback list \<Rightarrow> string list \<Rightarrow> store \<Rightarrow> error option \<times> store" where
  "createFallbacks prow pid basePrice [] seen s = (None, s)"
| "createFallbacks prow pid basePrice (fb # rest) seen s =
     (if fb_vendorId fb \<in> set seen then createFallbacks prow pid basePrice rest seen s
      else
        let price = max 99 (Math_round (js_mul (of_int basePrice) (fb_priceMult fb)))
        in case createOffer \<lparr>offer_id = [], vendorId = fb_vendorId fb, vendorName = fb_vendorName fb,
                              productId = pid, title = product_title prow, priceCents = price,
                              shippingCents = 0, etaDays = fb_etaDays fb, inStock = True,
                              productUrl = fb_url fb\<rparr> s of
             Inl e \<Rightarrow> (Some e, s)
           | Inr s' \<Rightarrow>
               let seen' = List.insert (fb_vendorId fb) seen
               in if 3 \<le> length seen' then (None, s')
                  else createFallbacks prow pid basePrice rest seen' s')"

text \<open>
  \<open>refreshWebOffersForProduct(productId, strategy)\<close>. The result is the error that escapes, if
  any, and the store as the call leaves it.
\<close>

definition refreshWebOffersForProduct ::
  "config \<Rightarrow> (string \<Rightarrow> string \<Rightarrow> error + candidate option)
     \<Rightarrow> (string \<Rightarrow> string \<Rightarrow> error + candidate list)
     \<Rightarrow> string \<Rightarrow> string \<Rightarrow> store \<Rightarrow> error option \<times> store" where
  "refreshWebOffersForProduct cfg amazonAdapter shoppingAdapter pid strategy s =
     (if \<not> available s then (Some StorageUnavailable, s)
      else case findProduct s pid of
        None \<Rightarrow> (None, s)
      | Some prow \<Rightarrow>
          let query = normalizeWhitespace (trim (brand prow @ '' '' @ product_title prow)) in
          if query = [] then (None, s)
          else
            let s1 = (if enableWebSearchOffers cfg \<and> enableSerpApiProxy cfg \<and> serpApiApiKey cfg \<noteq> []
                      then foldl (\<lambda>st c. upsertOffer pid prow c st) s
                             (fetchTopOffers cfg amazonAdapter shoppingAdapter query strategy)
                      else s);
                existing = filter (\<lambda>r. productId r = pid \<and> inStock r) (offer_table s1)
            in if 3 \<le> length existing then (None, s1)
               else
                 let existingVendorIds = remdups (map vendorId existing);
                     minPrice = foldl (\<lambda>m r. min m (if priceCents r = 0 then 10 ^ 12 else priceCents r))
                                  (10 ^ 12) existing;
                     basePrice = (if minPrice < 10 ^ 12 then minPrice else 1999)
                 in createFallbacks prow pid basePrice (fallbacks (encodeURIComponent query))
                      existingVendorIds s1)"

record ranked_offers =
  ranked :: "normalized_offer list"
  recommendedOfferId :: "string option"
  ranked_strategy :: string

text \<open>
  \<open>getRankedOffers({ productId, strategy, refreshLive })\<close>. Whatever the refresh throws is
  caught and logged; the read that follows needs the store.
\<close>

definition getRankedOffers ::
  "config \<Rightarrow> (string \<Rightarrow> string \<Rightarrow> error + candidate option)
     \<Rightarrow> (string \<Rightarrow> string \<Rightarrow> error + candidate list)
     \<Rightarrow> string \<Rightarrow> string \<Rightarrow> bool \<Rightarrow> store \<Rightarrow> error + (ranked_offers \<times> store)" where
  "getRankedOffers cfg amazonAdapter shoppingAdapter pid strategy refreshLive s =
     (let s1 = (if refreshLive
                then snd (refreshWebOffersForProduct cfg amazonAdapter shoppingAdapter pid strategy s)
                else s)
      in if \<not> available s1 then Inl StorageUnavailable
         else
           let found = filter (\<lambda>r. productId r = pid \<and> inStock r) (offer_table s1);
               normalized = map normalizeOffer found
           in Inr (\<lparr>ranked = normalized,
                     recommendedOfferId = recommendedOfferIdForStrategy normalized strategy,
                     ranked_strategy = strategy\<rparr>, s1))"

section \<open>Watchlist read path (server)\<close>

text \<open>
  The best offer \<open>buildWatchlistItemsResponse\<close> reports for a watch item: the pinned offer,
  found by id, then by vendor, then by URL, and only then the offer of lowest total.
\<close>

definition truthy :: "string option \<Rightarrow> bool" where
  "truthy v = (case v of None \<Rightarrow> False | Some x \<Rightarrow> x \<noteq> [])"

definition or_else :: "'a option \<Rightarrow> 'a option \<Rightarrow> 'a option" where
  "or_else a b = (case a of Some x \<Rightarrow> Some x | None \<Rightarrow> b)"

definition betterListed :: "normalized_offer option \<Rightarrow> normalized_offer \<Rightarrow> normalized_offer option" where
  "betterListed existing normalized =
     (case existing of
        None \<Rightarrow> Some normalized
      | Some e \<Rightarrow>
          (let existingTotal = priceCents e + shippingCents e;
               nextTotal = priceCents normalized + shippingCents normalized
           in if nextTotal < existingTotal \<or> (nextTotal = existingTotal \<and> etaDays normalized < etaDays e)
              then Some normalized else Some e))"

definition watchlistBestOffer :: "store \<Rightarrow> watch_item \<Rightarrow> normalized_offer option" where
  "watchlistBestOffer s item =
     (let productOffers = map normalizeOffer
            (filter (\<lambda>r. productId r = watch_productId item \<and> inStock r) (offer_table s));
          preferredOffer =
            or_else (if truthy (preferredOfferId item)
                     then find (\<lambda>r. Some (offer_id r) = preferredOfferId item) productOffers else None)
           (or_else (if truthy (preferredVendorId item)
                     then find (\<lambda>r. Some (vendorId r) = preferredVendorId item) productOffers else None)
                    (if truthy (preferredProductUrl item)
                     then find (\<lambda>r. Some (productUrl r) = preferredProductUrl item) productOffers else None))
      in or_else preferredOffer (foldl betterListed None productOffers))"

section \<open>Example data\<close>

text \<open>
  A product with its offers and one watch item whose baseline is 10000 cents at a 15 percent
  threshold, and a random source that always draws \<open>1/2\<close>: zero drift and no ETA shift.
\<close>

definition example_offer :: "string \<Rightarrow> int \<Rightarrow> offer" where
  "example_offer oid price =
     \<lparr>offer_id = oid, vendorId = ''vendor-'' @ oid, vendorName = ''Vendor'', productId = ''p1'',
      title = ''Headphones'', priceCents = price, shippingCents = 0, etaDays = 3, inStock = True,
      productUrl = ''https://shop.example/item/'' @ oid\<rparr>"

definition example_watch :: "int option \<Rightarrow> string option \<Rightarrow> watch_item" where
  "example_watch target pinned =
     \<lparr>watch_id = ''w1'', userId = ''u1'', watch_productId = ''p1'', pctDropThreshold = 15,
      targetPriceCents = target, shippingImprovementOn = False, preferredOfferId = pinned,
      preferredVendorId = None, preferredVendorName = None, preferredProductUrl = None,
      lastSeenBestPriceCents = Some 10000, lastSeenBestEtaDays = Some 3, lastNotifiedAt = None\<rparr>"

definition example_store :: "offer list \<Rightarrow> watch_item list \<Rightarrow> store" where
  "example_store os ws =
     \<lparr>available = True,
      product_table = [\<lparr>product_id = ''p1'', product_title = ''Headphones'', brand = ''Acme''\<rparr>],
      offer_table = os, watchlist_table = ws, notification_table = [], next_id = 0\<rparr>"

definition steady :: "nat \<Rightarrow> rat" where
  "steady k = 1 / 2"

text \<open>Configurations with live search off and on, and adapters whose calls are rejected.\<close>

definition no_live_search :: config where
  "no_live_search = \<lparr>enableWebSearchOffers = False, enableSerpApiProxy = True, serpApiApiKey = ''key''\<rparr>"

definition live_search :: config where
  "live_search = \<lparr>enableWebSearchOffers = True, enableSerpApiProxy = True, serpApiApiKey = ''key''\<rparr>"

definition failing_amazon :: "string \<Rightarrow> string \<Rightarrow> error + candidate option" where
  "failing_amazon query strategy = Inl ProviderFailure"

definition failing_shopping :: "string \<Rightarrow> string \<Rightarrow> error + candidate list" where
  "failing_shopping query strategy = Inl ProviderFailure"

text \<open>
  A URL parser for \<open>https\<close> URLs without fragment: it serialises a URL as it was written, and
  reads the host name up to the first slash and the path up to the question mark.
\<close>

definition plain_urls :: url_api where
  "plain_urls =
     \<lparr>url_canonical = Some,
      url_hostname = (\<lambda>u. Some (takeWhile (\<lambda>c. c \<noteq> CHR ''/'') (drop 8 u))),
      url_pathname = (\<lambda>u. Some (takeWhile (\<lambda>c. c \<noteq> CHR ''?'')
                                   (dropWhile (\<lambda>c. c \<noteq> CHR ''/'') (drop 8 u)))),
      url_without_search = (\<lambda>u. Some (takeWhile (\<lambda>c. c \<noteq> CHR ''?'') u))\<rparr>"

text \<open>Search results for one product at Amazon and at Walmart, and the Amazon product lookup.\<close>

definition example_world :: world where
  "example_world =
     \<lparr>amazonSearch = (\<lambda>q. Inr
        [\<lparr>sr_title = ''Acme Headphones'',
          sr_link = ''https://www.amazon.com/gp/product/B08N5WRWNW?th=1'',
          sr_snippet = [], sr_price = JStr ''$19.99'', sr_extracted_price = JNum (1999 / 100),
          sr_delivery = JStr ''in 2 days''\<rparr>]),
      shoppingSearch = (\<lambda>q. Inr
        [\<lparr>sr_title = ''Acme Headphones'',
          sr_link = ''https://www.walmart.com/ip/12345?from=/'',
          sr_snippet = [], sr_price = JStr ''$18.49'', sr_extracted_price = JNum (1849 / 100),
          sr_delivery = JNull\<rparr>]),
      amazonProduct = (\<lambda>asin. Inr
        \<lparr>pp_title = ''Acme Headphones'', pp_link = [], pp_priceText = ''$19.99'',
         pp_extractedPrice = Some (1999 / 100), pp_delivery = []\<rparr>)\<rparr>"

text \<open>The Best Buy fallback row of a product: a search page under the \<open>/site/\<close> path.\<close>

definition example_search_offer :: offer where
  "example_search_offer =
     (example_offer ''c'' 2099)
       \<lparr>vendorId := ''fallback:bestbuy'',
        productUrl := ''https://www.bestbuy.com/site/searchpage.jsp?st=Acme''\<rparr>"

section \<open>Properties of the number model\<close>

text \<open>Rounding to the nearest double is monotone and odd.\<close>

lemma pow2_powi: "pow2 e = 2 powi e"
  by (simp add: pow2_def power_int_def inverse_eq_divide power_one_over)

lemma pow2_pos: "0 < pow2 e"
  by (simp add: pow2_powi)

lemma pow2_add: "pow2 (a + b) = pow2 a * pow2 b"
  by (simp add: pow2_powi power_int_add)

lemma pow2_mono: "a \<le> b \<Longrightarrow> pow2 a \<le> pow2 b"
  by (simp add: pow2_powi power_int_increasing)

lemma pow2_nat: "pow2 (int n) = 2 ^ n"
  by (simp add: pow2_def)

lemma round_half_even_mono: "x \<le> y \<Longrightarrow> round_half_even x \<le> round_half_even y"
proof -
  assume xy: "x \<le> y"
  have fl: "\<lfloor>x\<rfloor> \<le> \<lfloor>y\<rfloor>" using xy by (rule floor_mono)
  show ?thesis
  proof (cases "\<lfloor>x\<rfloor> = \<lfloor>y\<rfloor>")
    case True
    then have "x - of_int \<lfloor>x\<rfloor> \<le> y - of_int \<lfloor>y\<rfloor>" using xy by simp
    then show ?thesis using True
      by (auto simp: round_half_even_def Let_def)
  next
    case False
    then have "\<lfloor>x\<rfloor> + 1 \<le> \<lfloor>y\<rfloor>" using fl by linarith
    moreover have "round_half_even x \<le> \<lfloor>x\<rfloor> + 1"
      by (auto simp: round_half_even_def Let_def)
    moreover have "\<lfloor>y\<rfloor> \<le> round_half_even y"
      by (auto simp: round_half_even_def Let_def)
    ultimately show ?thesis by linarith
  qed
qed

lemma round_half_even_of_int: "round_half_even (of_int n) = n"
  by (simp add: round_half_even_def)

lemma round_half_even_minus: "round_half_even (- x) = - round_half_even x"
proof (cases "x = of_int \<lfloor>x\<rfloor>")
  case True
  then obtain n where "x = of_int n" by metis
  then have "- x = of_int (- n)" by simp
  then show ?thesis
    using \<open>x = of_int n\<close> round_half_even_of_int by metis
next
  case False
  then have lt: "of_int \<lfloor>x\<rfloor> < x" by (metis floor_less_cancel less_eq_rat_def of_int_floor_le linorder_not_less order_antisym)
  have up: "x < of_int \<lfloor>x\<rfloor> + 1" by linarith
  have fm: "\<lfloor>- x\<rfloor> = - \<lfloor>x\<rfloor> - 1"
    using lt up by (intro floor_unique) auto
  show ?thesis
    using lt up fm by (auto simp: round_half_even_def Let_def)
qed

lemma bitlen_rat_bounds:
  assumes "0 < a"
  shows "pow2 (bitlen a - 1) \<le> of_int a"
    and "of_int a < pow2 (bitlen a)"
proof -
  have ba: "2 ^ nat (bitlen a - 1) \<le> a \<and> a < 2 ^ nat (bitlen a)"
    using assms by (rule bitlen_bounds)
  have l: "0 < bitlen a" using assms bitlen_eq_zero_iff[of a] bitlen_nonneg[of a] by linarith
  have "(of_int (2 ^ nat (bitlen a - 1)) :: rat) \<le> of_int a"
    using ba by (simp only: of_int_le_iff)
  then have lo: "(2::rat) ^ nat (bitlen a - 1) \<le> of_int a" by simp
  have "(of_int a :: rat) < of_int (2 ^ nat (bitlen a))"
    using ba by (simp only: of_int_less_iff)
  then have hi: "of_int a < (2::rat) ^ nat (bitlen a)" by simp
  show "pow2 (bitlen a - 1) \<le> of_int a"
    using lo l by (simp add: pow2_def)
  show "of_int a < pow2 (bitlen a)"
    using hi l by (simp add: pow2_def)
qed

lemma ilog2_bounds:
  assumes "0 < x"
  shows "pow2 (ilog2 x) \<le> x \<and> x < pow2 (ilog2 x + 1)"
proof -
  obtain a b where q: "quotient_of x = (a, b)" by (cases "quotient_of x")
  have b: "0 < b" using q by (rule quotient_of_denom_pos)
  have x: "x = of_int a / of_int b" using q by (rule quotient_of_div)
  have a: "0 < a" using assms b x by (simp add: zero_less_divide_iff)
  define la where "la = bitlen a"
  define lb where "lb = bitlen b"
  have a1: "pow2 (la - 1) \<le> of_int a" and a2: "of_int a < pow2 la"
    unfolding la_def using bitlen_rat_bounds[OF a] by blast+
  have b1: "pow2 (lb - 1) \<le> of_int b" and b2: "of_int b < pow2 lb"
    unfolding lb_def using bitlen_rat_bounds[OF b] by blast+
  define k where "k = la - lb"
  have bpos: "0 < (of_int b :: rat)" using b by simp
  have lower: "pow2 (k - 1) < x"
  proof -
    have "pow2 (k - 1) * of_int b < pow2 (k - 1) * pow2 lb"
      using b2 pow2_pos[of "k - 1"] by (rule mult_strict_left_mono)
    also have "\<dots> = pow2 ((k - 1) + lb)" by (simp only: pow2_add)
    also have "\<dots> = pow2 (la - 1)" by (simp add: k_def)
    also have "\<dots> \<le> of_int a" by (rule a1)
    finally have "pow2 (k - 1) * of_int b < of_int a" .
    then have "pow2 (k - 1) < of_int a / of_int b"
      using bpos by (simp only: pos_less_divide_eq)
    then show ?thesis by (simp only: x)
  qed
  have upper: "x < pow2 (k + 1)"
  proof -
    have "of_int a < pow2 la" by (rule a2)
    also have "\<dots> = pow2 ((k + 1) + (lb - 1))" by (simp add: k_def)
    also have "\<dots> = pow2 (k + 1) * pow2 (lb - 1)" by (simp only: pow2_add)
    also have "\<dots> \<le> pow2 (k + 1) * of_int b"
      by (rule mult_left_mono[OF b1 less_imp_le[OF pow2_pos]])
    finally have "of_int a < pow2 (k + 1) * of_int b" .
    then have "of_int a / of_int b < pow2 (k + 1)"
      using bpos by (simp only: pos_divide_less_eq)
    then show ?thesis by (simp only: x)
  qed
  have il: "ilog2 x = (if pow2 k \<le> x then k else k - 1)"
    unfolding ilog2_def q k_def la_def lb_def by (simp add: Let_def)
  show ?thesis
  proof (cases "pow2 k \<le> x")
    case True
    then show ?thesis using upper by (simp add: il)
  next
    case False
    then have "x < pow2 k" by simp
    then show ?thesis using lower False by (simp add: il less_imp_le)
  qed
qed

lemma ilog2_mono:
  assumes "0 < x" "x \<le> y"
  shows "ilog2 x \<le> ilog2 y"
proof (rule ccontr)
  assume "\<not> ilog2 x \<le> ilog2 y"
  then have "ilog2 y + 1 \<le> ilog2 x" by simp
  then have "pow2 (ilog2 y + 1) \<le> pow2 (ilog2 x)" by (rule pow2_mono)
  moreover have "y < pow2 (ilog2 y + 1)" using ilog2_bounds[of y] assms by simp
  moreover have "pow2 (ilog2 x) \<le> x" using ilog2_bounds[of x] assms by simp
  ultimately show False using assms by linarith
qed

lemma dbl_minus: "dbl (- x) = - dbl x"
  by (simp add: dbl_def Let_def round_half_even_minus)

lemma dbl_nonneg: "0 \<le> x \<Longrightarrow> 0 \<le> dbl x"
proof -
  assume x: "0 \<le> x"
  have "\<And>e. 0 \<le> round_half_even (x / pow2 e)"
    using round_half_even_mono[of 0] x pow2_pos round_half_even_of_int[of 0]
    by (metis divide_nonneg_pos of_int_0)
  then show ?thesis
    using pow2_pos by (simp add: dbl_def Let_def less_imp_le)
qed

lemma pow2_53: "pow2 53 = of_int (2 ^ 53)"
  by (simp add: pow2_def)

lemma pow2_52: "pow2 52 = of_int (2 ^ 52)"
  by (simp add: pow2_def)

lemma scaled_upper:
  assumes "0 < x" "ilog2 x - 52 \<le> e"
  shows "round_half_even (x / pow2 e) \<le> 2 ^ 53"
proof -
  have "pow2 (ilog2 x + 1) \<le> pow2 (e + 53)" using assms(2) by (intro pow2_mono) simp
  then have "x < pow2 (e + 53)" using ilog2_bounds[OF assms(1)] by linarith
  then have "x < of_int (2 ^ 53) * pow2 e" by (simp only: pow2_add pow2_53 mult.commute)
  then have "x / pow2 e < of_int (2 ^ 53)"
    using pow2_pos[of e] by (simp only: pos_divide_less_eq)
  then have "x / pow2 e \<le> of_int (2 ^ 53)" by (rule less_imp_le)
  then have "round_half_even (x / pow2 e) \<le> round_half_even (of_int (2 ^ 53))"
    by (rule round_half_even_mono)
  then show ?thesis by (simp only: round_half_even_of_int)
qed

lemma scaled_lower:
  assumes "0 < x"
  shows "2 ^ 52 \<le> round_half_even (x / pow2 (ilog2 x - 52))"
proof -
  have "pow2 ((ilog2 x - 52) + 52) \<le> x" using ilog2_bounds[OF assms(1)] by simp
  then have "of_int (2 ^ 52) * pow2 (ilog2 x - 52) \<le> x"
    by (simp only: pow2_add pow2_52 mult.commute)
  then have "of_int (2 ^ 52) \<le> x / pow2 (ilog2 x - 52)"
    using pow2_pos[of "ilog2 x - 52"] by (simp only: pos_le_divide_eq)
  then have "round_half_even (of_int (2 ^ 52)) \<le> round_half_even (x / pow2 (ilog2 x - 52))"
    by (rule round_half_even_mono)
  then show ?thesis by (simp only: round_half_even_of_int)
qed

lemma dbl_mono_pos:
  assumes "0 < x" "x \<le> y"
  shows "dbl x \<le> dbl y"
proof -
  define ex where "ex = max (ilog2 x - 52) (- 1074)"
  define ey where "ey = max (ilog2 y - 52) (- 1074)"
  have y: "0 < y" using assms by linarith
  have dx: "dbl x = of_int (round_half_even (x / pow2 ex)) * pow2 ex"
    using assms by (simp add: dbl_def ex_def Let_def)
  have dy: "dbl y = of_int (round_half_even (y / pow2 ey)) * pow2 ey"
    using y by (simp add: dbl_def ey_def Let_def)
  have le: "ex \<le> ey"
    using ilog2_mono[OF assms] by (simp add: ex_def ey_def)
  show ?thesis
  proof (cases "ex = ey")
    case True
    have "x / pow2 ey \<le> y / pow2 ey"
      using assms(2) pow2_pos[of ey] by (simp only: divide_right_mono less_imp_le)
    then have "round_half_even (x / pow2 ey) \<le> round_half_even (y / pow2 ey)"
      by (rule round_half_even_mono)
    then have "(of_int (round_half_even (x / pow2 ey)) :: rat) \<le> of_int (round_half_even (y / pow2 ey))"
      by (simp only: of_int_le_iff)
    then show ?thesis
      unfolding dx dy True by (rule mult_right_mono[OF _ less_imp_le[OF pow2_pos]])
  next
    case False
    then have lt: "ex + 1 \<le> ey" using le by simp
    then have ey: "ey = ilog2 y - 52" by (auto simp: ey_def ex_def)
    have "ilog2 x - 52 \<le> ex" by (simp add: ex_def)
    then have "round_half_even (x / pow2 ex) \<le> 2 ^ 53"
      using assms(1) by (intro scaled_upper)
    then have "(of_int (round_half_even (x / pow2 ex)) :: rat) \<le> of_int (2 ^ 53)"
      by (simp only: of_int_le_iff)
    then have "dbl x \<le> of_int (2 ^ 53) * pow2 ex"
      unfolding dx by (rule mult_right_mono[OF _ less_imp_le[OF pow2_pos]])
    also have "\<dots> = pow2 (ex + 53)" by (simp only: pow2_add pow2_53 mult.commute)
    also have "\<dots> \<le> pow2 (ey + 52)" using lt by (intro pow2_mono) simp
    also have "\<dots> = of_int (2 ^ 52) * pow2 ey" by (simp only: pow2_add pow2_52 mult.commute)
    also have "\<dots> \<le> dbl y"
    proof -
      have "2 ^ 52 \<le> round_half_even (y / pow2 ey)"
        unfolding ey using y by (rule scaled_lower)
      then have "(of_int (2 ^ 52) :: rat) \<le> of_int (round_half_even (y / pow2 ey))"
        by (simp only: of_int_le_iff)
      then show ?thesis
        unfolding dy by (rule mult_right_mono[OF _ less_imp_le[OF pow2_pos]])
    qed
    finally show ?thesis .
  qed
qed

lemma dbl_mono: "x \<le> y \<Longrightarrow> dbl x \<le> dbl y"
proof -
  assume xy: "x \<le> y"
  consider "0 < x" | "x \<le> 0" "0 \<le> y" | "y < 0" by linarith
  then show ?thesis
  proof cases
    case 1
    then show ?thesis using xy by (rule dbl_mono_pos)
  next
    case 2
    have "0 \<le> dbl (- x)" using 2 by (intro dbl_nonneg) simp
    then have "dbl x \<le> 0" by (simp add: dbl_minus)
    moreover have "0 \<le> dbl y" using 2 by (intro dbl_nonneg)
    ultimately show ?thesis by linarith
  next
    case 3
    then have "dbl (- y) \<le> dbl (- x)" using xy by (intro dbl_mono_pos) auto
    then show ?thesis by (simp add: dbl_minus)
  qed
qed

section \<open>Properties of the ranking policy\<close>

lemma toUpperCase_BEST_PRICE: "toUpperCase ''BEST_PRICE'' = ''BEST_PRICE''"
  by (simp add: toUpperCase_def upper_chars_def upper_char_def)

lemma toUpperCase_BALANCED: "toUpperCase ''BALANCED'' = ''BALANCED''"
  by (simp add: toUpperCase_def upper_chars_def upper_char_def)

lemma compareOffers_BEST_PRICE:
  "compareOffers ''BEST_PRICE'' a b \<le> 0 \<longleftrightarrow> price_key_le a b"
  by (auto simp: compareOffers_def price_key_le_def total_def Let_def)

lemma js_sort_Cons: "js_sort cmp (x # xs) = insert_by cmp x (js_sort cmp xs)"
  by (simp add: js_sort_def)

lemma js_sort_Nil: "js_sort cmp [] = []"
  by (simp add: js_sort_def)

lemma insert_by_not_Nil: "insert_by cmp x ys \<noteq> []"
  by (cases ys) auto

lemma js_sort_eq_Nil: "js_sort cmp xs = [] \<longleftrightarrow> xs = []"
  by (cases xs) (auto simp: js_sort_Cons js_sort_Nil insert_by_not_Nil)

lemma hd_insert_by:
  "hd (insert_by cmp x ys) = (if ys = [] \<or> cmp x (hd ys) \<le> 0 then x else hd ys)"
  by (cases ys) auto

lemma price_key_le_trans: "price_key_le a b \<Longrightarrow> price_key_le b c \<Longrightarrow> price_key_le a c"
  by (auto simp: price_key_le_def)

lemma price_key_le_total: "price_key_le a b \<or> price_key_le b a"
  by (auto simp: price_key_le_def)

lemma price_key_le_refl: "price_key_le a a"
  by (simp add: price_key_le_def)

lemma price_key_eq_le: "price_key_eq a b \<Longrightarrow> price_key_le a b"
  by (simp add: price_key_eq_def price_key_le_def)

text \<open>
  The head of the sorted in-stock list is the first in-stock offer of the input, in input
  order, whose key is minimal.
\<close>

lemma hd_sorted_in_stock:
  "filter inStock xs \<noteq> [] \<Longrightarrow>
     \<exists>i < length xs. inStock (xs ! i)
        \<and> hd (js_sort (compareOffers ''BEST_PRICE'') (filter inStock xs)) = xs ! i
        \<and> (\<forall>j < length xs. inStock (xs ! j) \<longrightarrow> price_key_le (xs ! i) (xs ! j))
        \<and> (\<forall>j < i. inStock (xs ! j) \<longrightarrow> \<not> price_key_eq (xs ! j) (xs ! i))"
proof (induction xs)
  case Nil
  then show ?case by simp
next
  case (Cons x xs)
  let ?cmp = "compareOffers ''BEST_PRICE''"
  show ?case
  proof (cases "filter inStock xs = []")
    case True
    with Cons.prems have x: "inStock x" by (auto split: if_splits)
    have none: "\<And>j. j < length xs \<Longrightarrow> \<not> inStock (xs ! j)"
      using True by (metis filter_empty_conv nth_mem)
    have "hd (js_sort ?cmp (filter inStock (x # xs))) = x"
      using x True by (simp add: js_sort_Cons js_sort_Nil)
    moreover have "\<forall>j < length (x # xs). inStock ((x # xs) ! j) \<longrightarrow> price_key_le x ((x # xs) ! j)"
      using none by (auto simp: nth_Cons price_key_le_refl split: nat.splits)
    ultimately show ?thesis
      using x by (intro exI[of _ 0]) simp
  next
    case False
    from Cons.IH[OF False] obtain i where i: "i < length xs" "inStock (xs ! i)"
      and h: "hd (js_sort ?cmp (filter inStock xs)) = xs ! i"
      and mn: "\<forall>j < length xs. inStock (xs ! j) \<longrightarrow> price_key_le (xs ! i) (xs ! j)"
      and fst: "\<forall>j < i. inStock (xs ! j) \<longrightarrow> \<not> price_key_eq (xs ! j) (xs ! i)"
      by blast
    have ne: "js_sort ?cmp (filter inStock xs) \<noteq> []"
      using False by (simp add: js_sort_eq_Nil)
    show ?thesis
    proof (cases "inStock x")
      case nx: False
      have "hd (js_sort ?cmp (filter inStock (x # xs))) = (x # xs) ! Suc i"
        using nx h by simp
      moreover have "\<forall>j < length (x # xs). inStock ((x # xs) ! j) \<longrightarrow> price_key_le ((x # xs) ! Suc i) ((x # xs) ! j)"
        using mn nx by (auto simp: nth_Cons split: nat.splits)
      moreover have "\<forall>j < Suc i. inStock ((x # xs) ! j) \<longrightarrow> \<not> price_key_eq ((x # xs) ! j) ((x # xs) ! Suc i)"
        using fst nx by (auto simp: nth_Cons less_Suc_eq_0_disj split: nat.splits)
      ultimately show ?thesis
        using i by (intro exI[of _ "Suc i"]) simp
    next
      case sx: True
      show ?thesis
      proof (cases "price_key_le x (xs ! i)")
        case le: True
        have "hd (js_sort ?cmp (filter inStock (x # xs))) = x"
          using sx h ne le by (simp add: js_sort_Cons hd_insert_by compareOffers_BEST_PRICE)
        moreover have "\<forall>j < length (x # xs). inStock ((x # xs) ! j) \<longrightarrow> price_key_le x ((x # xs) ! j)"
          using mn le by (auto simp: nth_Cons price_key_le_refl split: nat.splits
              intro: price_key_le_trans)
        ultimately show ?thesis
          using sx by (intro exI[of _ 0]) simp
      next
        case gt: False
        then have lt: "price_key_le (xs ! i) x" and neq: "\<not> price_key_eq x (xs ! i)"
          using price_key_le_total price_key_eq_le by blast+
        have "hd (js_sort ?cmp (filter inStock (x # xs))) = (x # xs) ! Suc i"
          using sx h ne gt by (simp add: js_sort_Cons hd_insert_by compareOffers_BEST_PRICE)
        moreover have "\<forall>j < length (x # xs). inStock ((x # xs) ! j) \<longrightarrow> price_key_le ((x # xs) ! Suc i) ((x # xs) ! j)"
          using mn lt by (auto simp: nth_Cons split: nat.splits)
        moreover have "\<forall>j < Suc i. inStock ((x # xs) ! j) \<longrightarrow> \<not> price_key_eq ((x # xs) ! j) ((x # xs) ! Suc i)"
          using fst neq by (auto simp: nth_Cons less_Suc_eq_0_disj split: nat.splits)
        ultimately show ?thesis
          using i by (intro exI[of _ "Suc i"]) simp
      qed
    qed
  qed
qed

lemma recommended_BEST_PRICE_hd:
  "recommendedOfferIdForStrategy offers ''BEST_PRICE'' =
     (if filter inStock offers = [] then None
      else let first = hd (js_sort (compareOffers ''BEST_PRICE'') (filter inStock offers))
           in if offer_id first = [] then None else Some (offer_id first))"
proof (cases "filter inStock offers = []")
  case True
  then show ?thesis by (simp add: recommendedOfferIdForStrategy_def)
next
  case False
  then have "js_sort (compareOffers ''BEST_PRICE'') (filter inStock offers) \<noteq> []"
    by (simp add: js_sort_eq_Nil)
  then show ?thesis
    using False
    by (auto simp: recommendedOfferIdForStrategy_def Let_def toUpperCase_BEST_PRICE
        split: list.splits)
qed

text \<open>
  C1. With strategy \<open>BEST_PRICE\<close> the ranking policy returns \<open>null\<close> when no offer is in
  stock, and otherwise the id of an in-stock offer whose price plus shipping is minimal among
  the in-stock offers, with the smallest ETA among those of minimal total, and the earliest
  position in the input among those that tie on both. Offer ids are the store's primary keys,
  which are never empty.
\<close>

theorem rank_best_price_minimal:
  assumes "[] \<notin> offer_id ` set offers"
  shows "(filter inStock offers = [] \<longrightarrow> recommendedOfferIdForStrategy offers ''BEST_PRICE'' = None)
       \<and> (filter inStock offers \<noteq> [] \<longrightarrow>
            (\<exists>i < length offers.
                recommendedOfferIdForStrategy offers ''BEST_PRICE'' = Some (offer_id (offers ! i))
              \<and> inStock (offers ! i)
              \<and> (\<forall>j < length offers. inStock (offers ! j) \<longrightarrow>
                    total (offers ! i) < total (offers ! j)
                  \<or> (total (offers ! i) = total (offers ! j) \<and> etaDays (offers ! i) \<le> etaDays (offers ! j)))
              \<and> (\<forall>j < i. inStock (offers ! j) \<longrightarrow>
                    \<not> (total (offers ! j) = total (offers ! i) \<and> etaDays (offers ! j) = etaDays (offers ! i)))))"
proof (intro conjI impI)
  assume "filter inStock offers = []"
  then show "recommendedOfferIdForStrategy offers ''BEST_PRICE'' = None"
    by (simp add: recommended_BEST_PRICE_hd)
next
  assume ne: "filter inStock offers \<noteq> []"
  from hd_sorted_in_stock[OF ne] obtain i where i: "i < length offers" "inStock (offers ! i)"
    and h: "hd (js_sort (compareOffers ''BEST_PRICE'') (filter inStock offers)) = offers ! i"
    and mn: "\<forall>j < length offers. inStock (offers ! j) \<longrightarrow> price_key_le (offers ! i) (offers ! j)"
    and fst: "\<forall>j < i. inStock (offers ! j) \<longrightarrow> \<not> price_key_eq (offers ! j) (offers ! i)"
    by blast
  have "offer_id (offers ! i) \<noteq> []"
    using assms i(1) by (metis imageI nth_mem)
  then have "recommendedOfferIdForStrategy offers ''BEST_PRICE'' = Some (offer_id (offers ! i))"
    using ne h by (simp add: recommended_BEST_PRICE_hd)
  then show "\<exists>i < length offers.
                recommendedOfferIdForStrategy offers ''BEST_PRICE'' = Some (offer_id (offers ! i))
              \<and> inStock (offers ! i)
              \<and> (\<forall>j < length offers. inStock (offers ! j) \<longrightarrow>
                    total (offers ! i) < total (offers ! j)
                  \<or> (total (offers ! i) = total (offers ! j) \<and> etaDays (offers ! i) \<le> etaDays (offers ! j)))
              \<and> (\<forall>j < i. inStock (offers ! j) \<longrightarrow>
                    \<not> (total (offers ! j) = total (offers ! i) \<and> etaDays (offers ! j) = etaDays (offers ! i)))"
    using i mn fst unfolding price_key_le_def price_key_eq_def by blast
qed

theorem rank_best_price_minimal_witness:
  "[] \<notin> offer_id ` set [example_offer ''a'' 900, example_offer ''b'' 700, example_offer ''c'' 700]
   \<and> filter inStock [example_offer ''a'' 900, example_offer ''b'' 700, example_offer ''c'' 700] \<noteq> []
   \<and> (\<exists>i < length [example_offer ''a'' 900, example_offer ''b'' 700, example_offer ''c'' 700].
         recommendedOfferIdForStrategy [example_offer ''a'' 900, example_offer ''b'' 700, example_offer ''c'' 700] ''BEST_PRICE''
           = Some (offer_id ([example_offer ''a'' 900, example_offer ''b'' 700, example_offer ''c'' 700] ! i))
       \<and> inStock ([example_offer ''a'' 900, example_offer ''b'' 700, example_offer ''c'' 700] ! i))"
proof -
  let ?xs = "[example_offer ''a'' 900, example_offer ''b'' 700, example_offer ''c'' 700]"
  have h: "[] \<notin> offer_id ` set ?xs" by (simp add: example_offer_def)
  have ne: "filter inStock ?xs \<noteq> []" by (simp add: example_offer_def)
  from rank_best_price_minimal[OF h] ne show ?thesis using h by blast
qed

text \<open>
  C6. For every list of offers, the \<open>BALANCED\<close> strategy recommends exactly what
  \<open>BEST_PRICE\<close> recommends: both sort by ascending total, then ascending ETA.
\<close>

theorem rank_balanced_equals_best_price:
  "recommendedOfferIdForStrategy offers ''BALANCED'' = recommendedOfferIdForStrategy offers ''BEST_PRICE''"
proof -
  have "compareOffers ''BALANCED'' = (compareOffers ''BEST_PRICE'' :: 'a offer_scheme \<Rightarrow> _)"
    by (intro ext) (simp add: compareOffers_def)
  then show ?thesis
    by (simp add: recommendedOfferIdForStrategy_def Let_def toUpperCase_BEST_PRICE
        toUpperCase_BALANCED)
qed

section \<open>Properties of the price-drift simulator and alert engine\<close>

lemma dbl_0: "dbl 0 = 0" by (simp add: dbl_def)

lemma randomPercent_range:
  assumes "0 \<le> r" "r < 1" and lo: "dbl lo = lo" and c: "js_sub hi lo = c" "0 \<le> c" "dbl c = c"
  shows "lo \<le> randomPercent r lo hi" and "randomPercent r lo hi \<le> dbl (lo + c)"
proof -
  define t where "t = js_mul r c"
  have "0 \<le> r * c" using assms(1) c(2) by simp
  then have "dbl 0 \<le> dbl (r * c)" by (rule dbl_mono)
  then have t0: "0 \<le> t" by (simp only: t_def js_mul_def dbl_0)
  have "r * c \<le> c" using assms(1,2) c(2) by (simp add: mult_left_le_one_le)
  then have "dbl (r * c) \<le> dbl c" by (rule dbl_mono)
  then have t1: "t \<le> c" by (simp only: t_def js_mul_def c(3))
  have rp: "randomPercent r lo hi = dbl (lo + t)"
    by (simp only: randomPercent_def c(1) t_def js_add_def)
  have "lo \<le> lo + t" using t0 by simp
  then have "dbl lo \<le> dbl (lo + t)" by (rule dbl_mono)
  then show "lo \<le> randomPercent r lo hi" by (simp only: rp lo)
  have "lo + t \<le> lo + c" using t1 by simp
  then have "dbl (lo + t) \<le> dbl (lo + c)" by (rule dbl_mono)
  then show "randomPercent r lo hi \<le> dbl (lo + c)" by (simp only: rp)
qed

lemma drift_lo_fix: "dbl (dbl (- 2 / 100)) = dbl (- 2 / 100)" by code_simp
lemma drift_span: "js_sub (dbl (2 / 100)) (dbl (- 2 / 100)) = 2 * dbl (2 / 100)" by code_simp
lemma drift_span_nonneg: "0 \<le> 2 * dbl (2 / 100)" by code_simp
lemma drift_span_fix: "dbl (2 * dbl (2 / 100)) = 2 * dbl (2 / 100)" by code_simp
lemma drift_hi: "dbl (dbl (- 2 / 100) + 2 * dbl (2 / 100)) = dbl (2 / 100)" by code_simp

lemma drift_range:
  assumes "0 \<le> r" "r < 1"
  shows "dbl (- 2 / 100) \<le> randomPercent r (dbl (- 2 / 100)) (dbl (2 / 100))"
    and "randomPercent r (dbl (- 2 / 100)) (dbl (2 / 100)) \<le> dbl (2 / 100)"
proof -
  show "dbl (- 2 / 100) \<le> randomPercent r (dbl (- 2 / 100)) (dbl (2 / 100))"
    by (rule randomPercent_range(1)[OF assms drift_lo_fix drift_span drift_span_nonneg drift_span_fix])
  have "randomPercent r (dbl (- 2 / 100)) (dbl (2 / 100)) \<le> dbl (dbl (- 2 / 100) + 2 * dbl (2 / 100))"
    by (rule randomPercent_range(2)[OF assms drift_lo_fix drift_span drift_span_nonneg drift_span_fix])
  then show "randomPercent r (dbl (- 2 / 100)) (dbl (2 / 100)) \<le> dbl (2 / 100)"
    by (simp only: drift_hi)
qed

lemma Math_round_mono: "x \<le> y \<Longrightarrow> Math_round x \<le> Math_round y"
  by (simp add: Math_round_def floor_mono)

lemma drifted_price_mono:
  assumes "d \<le> d'" "0 \<le> p"
  shows "Math_round (js_mul p (js_add 1 d)) \<le> Math_round (js_mul p (js_add 1 d'))"
proof -
  have "1 + d \<le> 1 + d'" using assms(1) by simp
  then have "js_add 1 d \<le> js_add 1 d'" unfolding js_add_def by (rule dbl_mono)
  then have "p * js_add 1 d \<le> p * js_add 1 d'" using assms(2) by (rule mult_left_mono)
  then have "js_mul p (js_add 1 d) \<le> js_mul p (js_add 1 d')" unfolding js_mul_def by (rule dbl_mono)
  then show ?thesis by (rule Math_round_mono)
qed

lemma round_lo: "Math_round (js_mul (of_int 10000) (js_add 1 (dbl (- 2 / 100)))) = 9800" by code_simp
lemma round_hi: "Math_round (js_mul (of_int 10000) (js_add 1 (dbl (2 / 100)))) = 10200" by code_simp

lemma drifted_price_10000:
  assumes "dbl (- 2 / 100) \<le> d" "d \<le> dbl (2 / 100)"
  shows "9800 \<le> Math_round (js_mul (of_int 10000) (js_add 1 d))"
    and "Math_round (js_mul (of_int 10000) (js_add 1 d)) \<le> 10200"
proof -
  have p: "(0::rat) \<le> of_int 10000" by simp
  show "9800 \<le> Math_round (js_mul (of_int 10000) (js_add 1 d))"
    using drifted_price_mono[OF assms(1) p] by (simp only: round_lo)
  show "Math_round (js_mul (of_int 10000) (js_add 1 d)) \<le> 10200"
    using drifted_price_mono[OF assms(2) p] by (simp only: round_hi)
qed


lemma clamp_bounds: "mn \<le> mx \<Longrightarrow> mn \<le> clamp v mn mx \<and> clamp v mn mx \<le> mx"
  by (auto simp: clamp_def)

lemma tickOffer_form:
  assumes "\<forall>k. 0 \<le> rnd k \<and> rnd k < 1"
  shows "\<exists>d sh. dbl (- 2 / 100) \<le> d \<and> d \<le> dbl (2 / 100) \<and> sh \<in> {- 1, 0, 1}
           \<and> fst (tickOffer rnd k r) =
               clamp (Math_round (js_mul (of_int (priceCents r)) (js_add 1 d))) 50 500000
           \<and> fst (snd (tickOffer rnd k r)) = clamp (etaDays r + sh) 1 10"
proof -
  define d where "d = randomPercent (rnd k) (dbl (- 2 / 100)) (dbl (2 / 100))"
  define sh :: int where
    "sh = (if rnd (k + 1) < dbl (2 / 10) then (if rnd (k + 2) < dbl (5 / 10) then - 1 else 1) else 0)"
  have r: "0 \<le> rnd k" "rnd k < 1" using assms by auto
  have "dbl (- 2 / 100) \<le> d" "d \<le> dbl (2 / 100)"
    unfolding d_def using drift_range[OF r] by blast+
  moreover have "sh \<in> {- 1, 0, 1}" by (simp add: sh_def)
  moreover have "fst (tickOffer rnd k r) =
      clamp (Math_round (js_mul (of_int (priceCents r)) (js_add 1 d))) 50 500000"
    by (simp only: tickOffer_def Let_def d_def fst_conv)
  moreover have "fst (snd (tickOffer rnd k r)) = clamp (etaDays r + sh) 1 10"
    by (simp only: tickOffer_def Let_def sh_def fst_conv snd_conv)
  ultimately show ?thesis by blast
qed

lemma tickOffer_bounds:
  "50 \<le> fst (tickOffer rnd k r) \<and> fst (tickOffer rnd k r) \<le> 500000
   \<and> 1 \<le> fst (snd (tickOffer rnd k r)) \<and> fst (snd (tickOffer rnd k r)) \<le> 10"
  by (simp add: tickOffer_def Let_def clamp_def)

lemma tickOffers_Cons:
  "snd (tickOffers rnd k (r # rest) s) =
     snd (tickOffers rnd (snd (snd (tickOffer rnd k r))) rest
        (s\<lparr>offer_table := updateOffer (offer_id r) (fst (tickOffer rnd k r))
             (fst (snd (tickOffer rnd k r))) (offer_table s)\<rparr>))"
  by (simp add: split_beta Let_def)

lemma tickOffers_frame:
  "watchlist_table (snd (tickOffers rnd k os s)) = watchlist_table s
   \<and> notification_table (snd (tickOffers rnd k os s)) = notification_table s
   \<and> product_table (snd (tickOffers rnd k os s)) = product_table s
   \<and> available (snd (tickOffers rnd k os s)) = available s
   \<and> next_id (snd (tickOffers rnd k os s)) = next_id s"
proof (induction os arbitrary: k s)
  case Nil
  show ?case by simp
next
  case (Cons r rest)
  show ?case unfolding tickOffers_Cons by (simp add: Cons.IH)
qed

lemma updateOffer_length: "length (updateOffer oid p e rows) = length rows"
  by (simp add: updateOffer_def)

lemma updateOffer_nth:
  "j < length rows \<Longrightarrow> updateOffer oid p e rows ! j =
     (if offer_id (rows ! j) = oid then (rows ! j)\<lparr>priceCents := p, etaDays := e\<rparr> else rows ! j)"
  by (simp add: updateOffer_def)

lemma tickOffers_rows:
  assumes "distinct (map offer_id os)"
  shows "length (offer_table (snd (tickOffers rnd k os s))) = length (offer_table s)
     \<and> (\<forall>j < length (offer_table s).
          (offer_id (offer_table s ! j) \<notin> offer_id ` set os \<longrightarrow>
              offer_table (snd (tickOffers rnd k os s)) ! j = offer_table s ! j)
        \<and> (\<forall>r \<in> set os. offer_id r = offer_id (offer_table s ! j) \<longrightarrow>
              (\<exists>k'. offer_table (snd (tickOffers rnd k os s)) ! j =
                 (offer_table s ! j)\<lparr>priceCents := fst (tickOffer rnd k' r),
                                      etaDays := fst (snd (tickOffer rnd k' r))\<rparr>)))"
  using assms
proof (induction os arbitrary: k s)
  case Nil
  show ?case by simp
next
  case (Cons r rest)
  define p where "p = fst (tickOffer rnd k r)"
  define e where "e = fst (snd (tickOffer rnd k r))"
  define k1 where "k1 = snd (snd (tickOffer rnd k r))"
  define s1 where "s1 = s\<lparr>offer_table := updateOffer (offer_id r) p e (offer_table s)\<rparr>"
  have step: "snd (tickOffers rnd k (r # rest) s) = snd (tickOffers rnd k1 rest s1)"
    unfolding tickOffers_Cons by (simp add: p_def e_def k1_def s1_def)
  have d: "distinct (map offer_id rest)" and nr: "offer_id r \<notin> offer_id ` set rest"
    using Cons.prems by auto
  note IH = Cons.IH[OF d, of k1 s1]
  have len1: "length (offer_table s1) = length (offer_table s)"
    by (simp add: s1_def updateOffer_length)
  have len: "length (offer_table (snd (tickOffers rnd k (r # rest) s))) = length (offer_table s)"
    unfolding step using IH len1 by simp
  have rows: "(offer_id (offer_table s ! j) \<notin> offer_id ` set (r # rest) \<longrightarrow>
              offer_table (snd (tickOffers rnd k (r # rest) s)) ! j = offer_table s ! j)
        \<and> (\<forall>q \<in> set (r # rest). offer_id q = offer_id (offer_table s ! j) \<longrightarrow>
              (\<exists>k'. offer_table (snd (tickOffers rnd k (r # rest) s)) ! j =
                 (offer_table s ! j)\<lparr>priceCents := fst (tickOffer rnd k' q),
                                      etaDays := fst (snd (tickOffer rnd k' q))\<rparr>))"
    if j: "j < length (offer_table s)" for j
  proof -
    have j1: "j < length (offer_table s1)" using j len1 by simp
    have row1: "offer_table s1 ! j =
        (if offer_id (offer_table s ! j) = offer_id r
         then (offer_table s ! j)\<lparr>priceCents := p, etaDays := e\<rparr> else offer_table s ! j)"
      using j by (simp add: s1_def updateOffer_nth)
    have id1: "offer_id (offer_table s1 ! j) = offer_id (offer_table s ! j)"
      by (simp add: row1)
    from IH j1 have keep: "offer_id (offer_table s1 ! j) \<notin> offer_id ` set rest \<Longrightarrow>
        offer_table (snd (tickOffers rnd k1 rest s1)) ! j = offer_table s1 ! j"
      and upd: "\<And>q. q \<in> set rest \<Longrightarrow> offer_id q = offer_id (offer_table s1 ! j) \<Longrightarrow>
        \<exists>k'. offer_table (snd (tickOffers rnd k1 rest s1)) ! j =
           (offer_table s1 ! j)\<lparr>priceCents := fst (tickOffer rnd k' q),
                                 etaDays := fst (snd (tickOffer rnd k' q))\<rparr>"
      by blast+
    show ?thesis
    proof (intro conjI impI ballI)
      assume "offer_id (offer_table s ! j) \<notin> offer_id ` set (r # rest)"
      then have "offer_id (offer_table s ! j) \<noteq> offer_id r"
        and "offer_id (offer_table s1 ! j) \<notin> offer_id ` set rest"
        using id1 by auto
      then show "offer_table (snd (tickOffers rnd k (r # rest) s)) ! j = offer_table s ! j"
        unfolding step using keep row1 by simp
    next
      fix q assume q: "q \<in> set (r # rest)" and qid: "offer_id q = offer_id (offer_table s ! j)"
      show "\<exists>k'. offer_table (snd (tickOffers rnd k (r # rest) s)) ! j =
                 (offer_table s ! j)\<lparr>priceCents := fst (tickOffer rnd k' q),
                                      etaDays := fst (snd (tickOffer rnd k' q))\<rparr>"
      proof (cases "offer_id (offer_table s ! j) = offer_id r")
        case True
        then have "offer_id q = offer_id r" using qid by simp
        then have "q \<notin> set rest" using nr by (metis imageI)
        then have qr: "q = r" using q by simp
        have "offer_id (offer_table s1 ! j) \<notin> offer_id ` set rest"
          using id1 True nr by simp
        then have "offer_table (snd (tickOffers rnd k1 rest s1)) ! j = offer_table s1 ! j"
          by (rule keep)
        then have "offer_table (snd (tickOffers rnd k (r # rest) s)) ! j =
            (offer_table s ! j)\<lparr>priceCents := fst (tickOffer rnd k q),
                                 etaDays := fst (snd (tickOffer rnd k q))\<rparr>"
          unfolding step using True by (simp add: row1 qr p_def e_def)
        then show ?thesis by blast
      next
        case False
        then have "q \<noteq> r" using qid by auto
        then have qrest: "q \<in> set rest" using q by simp
        have "offer_table s1 ! j = offer_table s ! j" using False by (simp add: row1)
        then show ?thesis unfolding step using upd[OF qrest] qid by simp
      qed
    qed
  qed
  show ?case using len rows by blast
qed


lemma tickOffers_priced:
  "\<forall>r \<in> set (offer_table s). offer_id r \<in> offer_id ` set os \<or> (50 \<le> priceCents r \<and> priceCents r \<le> 500000)
   \<Longrightarrow> \<forall>r \<in> set (offer_table (snd (tickOffers rnd k os s))). 50 \<le> priceCents r \<and> priceCents r \<le> 500000"
proof (induction os arbitrary: k s)
  case Nil
  then show ?case by simp
next
  case (Cons q rest)
  define s1 where "s1 = s\<lparr>offer_table := updateOffer (offer_id q) (fst (tickOffer rnd k q))
             (fst (snd (tickOffer rnd k q))) (offer_table s)\<rparr>"
  have "\<forall>r \<in> set (offer_table s1). offer_id r \<in> offer_id ` set rest
          \<or> (50 \<le> priceCents r \<and> priceCents r \<le> 500000)"
    using Cons.prems tickOffer_bounds[of rnd k q]
    by (auto simp: s1_def updateOffer_def)
  then show ?case
    unfolding tickOffers_Cons s1_def[symmetric] by (rule Cons.IH)
qed

lemma driftedStore_priced:
  "r \<in> set (offer_table (driftedStore rnd s)) \<Longrightarrow> 50 \<le> priceCents r \<and> priceCents r \<le> 500000"
  using tickOffers_priced[of s "offer_table s" rnd 0] by (auto simp: driftedStore_def)

lemma foldl_betterOffer_mem:
  "foldl betterOffer acc xs = Some b \<Longrightarrow> acc = Some b \<or> b \<in> set xs"
proof (induction xs arbitrary: acc)
  case Nil
  then show ?case by simp
next
  case (Cons x xs)
  from Cons.IH[OF Cons.prems[simplified]] show ?case
    by (auto simp: betterOffer_def Let_def split: option.splits if_splits)
qed

lemma getBestOfferForProduct_mem:
  "getBestOfferForProduct s pid = Some b \<Longrightarrow> b \<in> set (offer_table s) \<and> productId b = pid \<and> inStock b"
  using foldl_betterOffer_mem[of None "filter (\<lambda>r. productId r = pid \<and> inStock r) (offer_table s)" b]
  by (auto simp: getBestOfferForProduct_def Let_def split: if_splits)

lemma getBestOfferForProduct_cong:
  "offer_table s = offer_table s' \<Longrightarrow> getBestOfferForProduct s pid = getBestOfferForProduct s' pid"
  by (simp add: getBestOfferForProduct_def)

lemma alertFires_cong:
  "offer_table s = offer_table s' \<Longrightarrow> alertFires s w = alertFires s' w"
  by (simp add: alertFires_def getBestOfferForProduct_cong[of s s'])

text \<open>One iteration of the loop over the watch items.\<close>

lemma tickWatchItems_skip:
  "\<not> alertFires s item \<Longrightarrow> tickWatchItems now (item # rest) s = tickWatchItems now rest s"
  by (simp add: alertFires_def split: option.splits)

lemma alertFires_iff:
  "alertFires s item \<longleftrightarrow>
     (\<exists>b. getBestOfferForProduct s (watch_productId item) = Some b \<and> shouldNotify item b)"
  by (auto simp: alertFires_def split: option.splits)

lemma tickWatchItems_fire_fst:
  assumes "getBestOfferForProduct s (watch_productId item) = Some b" "shouldNotify item b"
  shows "map watchlistId (fst (tickWatchItems now (item # rest) s)) =
         watch_id item # map watchlistId (fst (tickWatchItems now rest (recordAlert now item b s)))"
  using assms by (simp add: split_beta)

lemma tickWatchItems_fire_snd:
  assumes "getBestOfferForProduct s (watch_productId item) = Some b" "shouldNotify item b"
  shows "snd (tickWatchItems now (item # rest) s) =
         snd (tickWatchItems now rest (recordAlert now item b s))"
  using assms by (simp add: split_beta)

lemma recordAlert_offer_table: "offer_table (recordAlert now item b s) = offer_table s"
  by (simp add: recordAlert_def)

lemma recordAlert_watchlist_table:
  "watchlist_table (recordAlert now item b s) =
     updateWatch (watch_id item) now (priceCents b) (etaDays b) (watchlist_table s)"
  by (simp add: recordAlert_def)

lemma alertFires_recordAlert: "alertFires (recordAlert now item b s) = alertFires s"
  by (intro ext alertFires_cong) (simp add: recordAlert_offer_table)

lemma tickWatchItems_offer_table:
  "offer_table (snd (tickWatchItems now ws s)) = offer_table s"
proof (induction ws arbitrary: s)
  case Nil
  show ?case by simp
next
  case (Cons item rest)
  show ?case
  proof (cases "alertFires s item")
    case False
    show ?thesis by (simp only: tickWatchItems_skip[OF False] Cons.IH)
  next
    case True
    then obtain b where b: "getBestOfferForProduct s (watch_productId item) = Some b"
      "shouldNotify item b"
      unfolding alertFires_iff by blast
    show ?thesis
      by (simp only: tickWatchItems_fire_snd[OF b] Cons.IH recordAlert_offer_table)
  qed
qed

lemma tickWatchItems_notified:
  "map watchlistId (fst (tickWatchItems now ws s)) = map watch_id (filter (alertFires s) ws)"
proof (induction ws arbitrary: s)
  case Nil
  show ?case by simp
next
  case (Cons item rest)
  show ?case
  proof (cases "alertFires s item")
    case False
    then show ?thesis by (simp add: tickWatchItems_skip Cons.IH del: tickWatchItems.simps)
  next
    case True
    from True obtain b where b: "getBestOfferForProduct s (watch_productId item) = Some b"
      "shouldNotify item b"
      unfolding alertFires_iff by blast
    note eq = tickWatchItems_fire_fst[OF b, of now rest]
    show ?thesis using True
      by (simp add: eq Cons.IH alertFires_recordAlert del: tickWatchItems.simps)
  qed
qed

lemma updateWatch_length: "length (updateWatch wid now p e rows) = length rows"
  by (simp add: updateWatch_def)

lemma updateWatch_nth:
  "j < length rows \<Longrightarrow> updateWatch wid now p e rows ! j =
     (if watch_id (rows ! j) = wid
      then (rows ! j)\<lparr>lastSeenBestPriceCents := Some p, lastSeenBestEtaDays := Some e,
                        lastNotifiedAt := Some now\<rparr>
      else rows ! j)"
  by (simp add: updateWatch_def)

lemma tickWatchItems_rows:
  "length (watchlist_table (snd (tickWatchItems now ws s))) = length (watchlist_table s)
   \<and> (\<forall>j < length (watchlist_table s).
        watch_id (watchlist_table (snd (tickWatchItems now ws s)) ! j) = watch_id (watchlist_table s ! j)
      \<and> targetPriceCents (watchlist_table (snd (tickWatchItems now ws s)) ! j) = targetPriceCents (watchlist_table s ! j)
      \<and> watch_productId (watchlist_table (snd (tickWatchItems now ws s)) ! j) = watch_productId (watchlist_table s ! j)
      \<and> (watch_id (watchlist_table s ! j) \<notin> watch_id ` {w \<in> set ws. alertFires s w} \<longrightarrow>
           watchlist_table (snd (tickWatchItems now ws s)) ! j = watchlist_table s ! j))"
proof (induction ws arbitrary: s)
  case Nil
  show ?case by simp
next
  case (Cons item rest)
  show ?case
  proof (cases "alertFires s item")
    case False
    then show ?thesis using Cons.IH[of s] by (auto simp del: tickWatchItems.simps simp add: tickWatchItems_skip)
  next
    case True
    from True obtain b where b: "getBestOfferForProduct s (watch_productId item) = Some b"
      "shouldNotify item b"
      unfolding alertFires_iff by blast
    note eq = tickWatchItems_fire_snd[OF b, of now rest]
    define s' where "s' = recordAlert now item b s"
    have fires: "alertFires s' = alertFires s"
      by (simp add: s'_def alertFires_recordAlert)
    have len: "length (watchlist_table s') = length (watchlist_table s)"
      by (simp add: s'_def recordAlert_watchlist_table updateWatch_length)
    have row: "\<And>j. j < length (watchlist_table s) \<Longrightarrow> watchlist_table s' ! j =
        (if watch_id (watchlist_table s ! j) = watch_id item
         then (watchlist_table s ! j)\<lparr>lastSeenBestPriceCents := Some (priceCents b),
                lastSeenBestEtaDays := Some (etaDays b), lastNotifiedAt := Some now\<rparr>
         else watchlist_table s ! j)"
      by (simp add: s'_def recordAlert_watchlist_table updateWatch_nth)
    note IH = Cons.IH[of s', unfolded fires len]
    show ?thesis
      unfolding eq s'_def[symmetric]
      using IH True row by (auto simp del: tickWatchItems.simps)
  qed
qed

lemma runPriceTick_notifications:
  "notifications (fst (runPriceTick rnd now s)) =
     fst (tickWatchItems now (watchlist_table (driftedStore rnd s)) (driftedStore rnd s))"
  by (simp add: runPriceTick_def driftedStore_def split_beta)

lemma runPriceTick_store:
  "snd (runPriceTick rnd now s) =
     snd (tickWatchItems now (watchlist_table (driftedStore rnd s)) (driftedStore rnd s))"
  by (simp add: runPriceTick_def driftedStore_def split_beta)

lemma driftedStore_watchlist: "watchlist_table (driftedStore rnd s) = watchlist_table s"
  by (simp add: driftedStore_def tickOffers_frame)

lemma runPriceTick_offer_table:
  "offer_table (snd (runPriceTick rnd now s)) = offer_table (driftedStore rnd s)"
  by (simp only: runPriceTick_store tickWatchItems_offer_table)

lemma notified_iff_fires:
  assumes "distinct (map watch_id (watchlist_table s))" "i < length (watchlist_table s)"
  shows "watch_id (watchlist_table s ! i) \<in> watchlistId ` set (notifications (fst (runPriceTick rnd now s)))
     \<longleftrightarrow> alertFires (driftedStore rnd s) (watchlist_table s ! i)"
proof -
  let ?ws = "watchlist_table s"
  have "watchlistId ` set (notifications (fst (runPriceTick rnd now s))) =
      set (map watch_id (filter (alertFires (driftedStore rnd s)) ?ws))"
    using arg_cong[OF tickWatchItems_notified[of now ?ws "driftedStore rnd s"], of set]
    by (simp only: runPriceTick_notifications driftedStore_watchlist set_map)
  also have "\<dots> = watch_id ` {w \<in> set ?ws. alertFires (driftedStore rnd s) w}"
    by auto
  finally have eq: "watchlistId ` set (notifications (fst (runPriceTick rnd now s))) =
      watch_id ` {w \<in> set ?ws. alertFires (driftedStore rnd s) w}" .
  have inj: "inj_on watch_id (set ?ws)"
    using assms(1) by (simp add: distinct_map)
  have mem: "?ws ! i \<in> set ?ws" using assms(2) by simp
  show ?thesis
  proof
    assume "watch_id (?ws ! i) \<in> watchlistId ` set (notifications (fst (runPriceTick rnd now s)))"
    then obtain w where w: "w \<in> set ?ws" "alertFires (driftedStore rnd s) w"
      "watch_id w = watch_id (?ws ! i)"
      unfolding eq by auto
    then have "w = ?ws ! i" using inj mem by (auto dest: inj_onD)
    then show "alertFires (driftedStore rnd s) (?ws ! i)" using w by simp
  next
    assume "alertFires (driftedStore rnd s) (?ws ! i)"
    then show "watch_id (?ws ! i) \<in> watchlistId ` set (notifications (fst (runPriceTick rnd now s)))"
      unfolding eq using mem by blast
  qed
qed

lemma dropPct_8600:
  "lastSeenBestPriceCents item = Some 10000 \<Longrightarrow> priceCents best = 8600 \<Longrightarrow> dropPct item best < 15"
proof -
  assume a: "lastSeenBestPriceCents item = Some 10000" "priceCents best = 8600"
  have v: "js_mul (js_div (of_int (10000 - 8600)) (of_int 10000)) 100 < 15" by code_simp
  show ?thesis using a v by (simp add: dropPct_def baseline_def)
qed

lemma dropPct_8499:
  "lastSeenBestPriceCents item = Some 10000 \<Longrightarrow> priceCents best = 8499 \<Longrightarrow> 15 \<le> dropPct item best"
proof -
  assume a: "lastSeenBestPriceCents item = Some 10000" "priceCents best = 8499"
  have v: "15 \<le> js_mul (js_div (of_int (10000 - 8499)) (of_int 10000)) 100" by code_simp
  show ?thesis using a v by (simp add: dropPct_def baseline_def)
qed

lemma price_tick_alert_rule_aux:
  assumes "distinct (map watch_id (watchlist_table s))" "i < length (watchlist_table s)"
  shows "watch_id (watchlist_table s ! i) \<in> watchlistId ` set (notifications (fst (runPriceTick rnd now s)))
          \<longleftrightarrow>
         (\<exists>best. getBestOfferForProduct (driftedStore rnd s) (watch_productId (watchlist_table s ! i)) = Some best
            \<and> (pctDropThreshold (watchlist_table s ! i) \<le> dropPct (watchlist_table s ! i) best
               \<or> (\<exists>t. targetPriceCents (watchlist_table s ! i) = Some t \<and> priceCents best \<le> t)
               \<or> (shippingImprovementOn (watchlist_table s ! i)
                    \<and> (\<exists>e. lastSeenBestEtaDays (watchlist_table s ! i) = Some e \<and> etaDays best < e))))"
proof -
  let ?item = "watchlist_table s ! i"
  let ?s1 = "driftedStore rnd s"
  have tgt: "targetHit ?item best \<longleftrightarrow> (\<exists>t. targetPriceCents ?item = Some t \<and> priceCents best \<le> t)"
    if "getBestOfferForProduct ?s1 (watch_productId ?item) = Some best" for best
  proof -
    have "best \<in> set (offer_table ?s1)" using that getBestOfferForProduct_mem by blast
    then have "50 \<le> priceCents best" using driftedStore_priced by blast
    then show ?thesis by (auto simp: targetHit_def split: option.splits)
  qed
  have shp: "shippingImproved ?item best \<longleftrightarrow>
      (shippingImprovementOn ?item \<and> (\<exists>e. lastSeenBestEtaDays ?item = Some e \<and> etaDays best < e))" for best
    by (auto simp: shippingImproved_def split: option.splits)
  show ?thesis
    unfolding notified_iff_fires[OF assms] alertFires_iff shouldNotify_def
    using tgt shp by blast
qed

lemma example_best_8499:
  "getBestOfferForProduct (driftedStore steady (example_store [example_offer ''a'' 8499] [example_watch t None])) ''p1''
     = Some (example_offer ''a'' 8499)"
  by code_simp

text \<open>What the loop over the watch items queues and returns, item by item.\<close>

lemma tickWatchItems_fire_result:
  assumes "getBestOfferForProduct s (watch_productId item) = Some b" "shouldNotify item b"
  shows "fst (tickWatchItems now (item # rest) s) =
         \<lparr>watchlistId = watch_id item, notified_payload = alertPayload item b\<rparr>
           # fst (tickWatchItems now rest (recordAlert now item b s))"
  using assms by (simp add: split_beta)

lemma recordAlert_notification_table:
  "notification_table (recordAlert now item b s) = notification_table s @
     [\<lparr>notification_userId = userId item, notification_productId = watch_productId item,
       notification_type = ''DEAL_ALERT'', notification_payload = alertPayload item b\<rparr>]"
  by (simp add: recordAlert_def)

lemma getBestOfferForProduct_recordAlert:
  "getBestOfferForProduct (recordAlert now item b s) = getBestOfferForProduct s"
  by (intro ext getBestOfferForProduct_cong) (simp add: recordAlert_offer_table)

lemma tickWatchItems_queue:
  "notification_table (snd (tickWatchItems now ws s)) = notification_table s @
     map (\<lambda>w. \<lparr>notification_userId = userId w, notification_productId = watch_productId w,
                notification_type = ''DEAL_ALERT'',
                notification_payload =
                  alertPayload w (the (getBestOfferForProduct s (watch_productId w)))\<rparr>)
       (filter (alertFires s) ws)"
proof (induction ws arbitrary: s)
  case Nil
  show ?case by simp
next
  case (Cons item rest)
  show ?case
  proof (cases "alertFires s item")
    case False
    then show ?thesis by (simp add: tickWatchItems_skip Cons.IH del: tickWatchItems.simps)
  next
    case True
    then obtain b where b: "getBestOfferForProduct s (watch_productId item) = Some b"
      "shouldNotify item b"
      unfolding alertFires_iff by blast
    note eq = tickWatchItems_fire_snd[OF b, of now rest]
    show ?thesis using True b(1)
      by (simp add: eq Cons.IH alertFires_recordAlert getBestOfferForProduct_recordAlert
          recordAlert_notification_table del: tickWatchItems.simps)
  qed
qed

lemma tickWatchItems_payloads:
  "map notified_payload (fst (tickWatchItems now ws s)) =
     map (\<lambda>w. alertPayload w (the (getBestOfferForProduct s (watch_productId w))))
       (filter (alertFires s) ws)"
proof (induction ws arbitrary: s)
  case Nil
  show ?case by simp
next
  case (Cons item rest)
  show ?case
  proof (cases "alertFires s item")
    case False
    then show ?thesis by (simp add: tickWatchItems_skip Cons.IH del: tickWatchItems.simps)
  next
    case True
    then obtain b where b: "getBestOfferForProduct s (watch_productId item) = Some b"
      "shouldNotify item b"
      unfolding alertFires_iff by blast
    note eq = tickWatchItems_fire_result[OF b, of now rest]
    show ?thesis using True b(1)
      by (simp add: eq Cons.IH alertFires_recordAlert getBestOfferForProduct_recordAlert
          del: tickWatchItems.simps)
  qed
qed

lemma driftedStore_notification_table:
  "notification_table (driftedStore rnd s) = notification_table s"
  by (simp add: driftedStore_def tickOffers_frame)

text \<open>The queue of a pass: one row for each watch item that fires, in the order of the items.\<close>

lemma runPriceTick_queue:
  "notification_table (snd (runPriceTick rnd now s)) = notification_table s @
     map (\<lambda>w. \<lparr>notification_userId = userId w, notification_productId = watch_productId w,
                notification_type = ''DEAL_ALERT'',
                notification_payload =
                  alertPayload w (the (getBestOfferForProduct (driftedStore rnd s) (watch_productId w)))\<rparr>)
       (filter (alertFires (driftedStore rnd s)) (watchlist_table s))"
  unfolding runPriceTick_store tickWatchItems_queue driftedStore_watchlist
    driftedStore_notification_table ..

lemma queued_rows:
  "queued s (snd (runPriceTick rnd now s)) =
     map (\<lambda>w. \<lparr>notification_userId = userId w, notification_productId = watch_productId w,
                notification_type = ''DEAL_ALERT'',
                notification_payload =
                  alertPayload w (the (getBestOfferForProduct (driftedStore rnd s) (watch_productId w)))\<rparr>)
       (filter (alertFires (driftedStore rnd s)) (watchlist_table s))"
  unfolding queued_def runPriceTick_queue by simp

lemma queued_appended:
  "notification_table (snd (runPriceTick rnd now s))
     = notification_table s @ queued s (snd (runPriceTick rnd now s))"
  unfolding queued_rows by (rule runPriceTick_queue)

lemma queued_payloads:
  "map notification_payload (queued s (snd (runPriceTick rnd now s)))
     = map notified_payload (notifications (fst (runPriceTick rnd now s)))"
  unfolding queued_rows runPriceTick_notifications tickWatchItems_payloads driftedStore_watchlist
  by (simp add: comp_def)

lemma alertPayload_watchlistId: "payload_watchlistId (alertPayload w b) = watch_id w"
  by (simp add: alertPayload_def)

lemma queued_iff_fires:
  assumes "distinct (map watch_id (watchlist_table s))" "i < length (watchlist_table s)"
  shows "(\<exists>r \<in> set (queued s (snd (runPriceTick rnd now s))).
            payload_watchlistId (notification_payload r) = watch_id (watchlist_table s ! i))
     \<longleftrightarrow> alertFires (driftedStore rnd s) (watchlist_table s ! i)"
proof -
  let ?ws = "watchlist_table s"
  have inj: "inj_on watch_id (set ?ws)"
    using assms(1) by (simp add: distinct_map)
  have mem: "?ws ! i \<in> set ?ws" using assms(2) by simp
  have "(\<exists>r \<in> set (queued s (snd (runPriceTick rnd now s))).
            payload_watchlistId (notification_payload r) = watch_id (?ws ! i))
      \<longleftrightarrow> (\<exists>w \<in> set ?ws. alertFires (driftedStore rnd s) w \<and> watch_id w = watch_id (?ws ! i))"
    unfolding queued_rows by (auto simp: alertPayload_watchlistId)
  also have "\<dots> \<longleftrightarrow> alertFires (driftedStore rnd s) (?ws ! i)"
    using inj mem by (auto dest: inj_onD)
  finally show ?thesis .
qed

lemma queued_row_fields:
  assumes "distinct (map watch_id (watchlist_table s))" "i < length (watchlist_table s)"
    and "r \<in> set (queued s (snd (runPriceTick rnd now s)))"
    and "payload_watchlistId (notification_payload r) = watch_id (watchlist_table s ! i)"
  shows "notification_userId r = userId (watchlist_table s ! i)
       \<and> notification_productId r = watch_productId (watchlist_table s ! i)
       \<and> notification_type r = ''DEAL_ALERT''"
proof -
  let ?ws = "watchlist_table s"
  have inj: "inj_on watch_id (set ?ws)"
    using assms(1) by (simp add: distinct_map)
  have mem: "?ws ! i \<in> set ?ws" using assms(2) by simp
  from assms(3) obtain w where w: "w \<in> set ?ws"
    "r = \<lparr>notification_userId = userId w, notification_productId = watch_productId w,
          notification_type = ''DEAL_ALERT'',
          notification_payload =
            alertPayload w (the (getBestOfferForProduct (driftedStore rnd s) (watch_productId w)))\<rparr>"
    unfolding queued_rows by auto
  from w(2) assms(4) have "watch_id w = watch_id (?ws ! i)"
    by (simp add: alertPayload_watchlistId)
  then have "w = ?ws ! i" using inj mem w(1) by (auto dest: inj_onD)
  then show ?thesis using w(2) by simp
qed

lemma updateWatch_userId: "map userId (updateWatch wid now p e rows) = map userId rows"
  by (induction rows) (simp_all add: updateWatch_def)

lemma tickWatchItems_userId:
  "map userId (watchlist_table (snd (tickWatchItems now ws s))) = map userId (watchlist_table s)"
proof (induction ws arbitrary: s)
  case Nil
  show ?case by simp
next
  case (Cons item rest)
  show ?case
  proof (cases "alertFires s item")
    case False
    show ?thesis by (simp only: tickWatchItems_skip[OF False] Cons.IH)
  next
    case True
    then obtain b where b: "getBestOfferForProduct s (watch_productId item) = Some b"
      "shouldNotify item b"
      unfolding alertFires_iff by blast
    show ?thesis
      by (simp only: tickWatchItems_fire_snd[OF b] Cons.IH recordAlert_watchlist_table
          updateWatch_userId)
  qed
qed

lemma runPriceTick_userId:
  "map userId (watchlist_table (snd (runPriceTick rnd now s))) = map userId (watchlist_table s)"
  by (simp only: runPriceTick_store tickWatchItems_userId driftedStore_watchlist)

lemma queued_for_item:
  assumes "distinct (map watch_id (watchlist_table s))" "i < length (watchlist_table s)"
    and "alertFires (driftedStore rnd s) (watchlist_table s ! i)"
  shows "\<exists>r \<in> set (queued s (snd (runPriceTick rnd now s))).
           payload_watchlistId (notification_payload r) = watch_id (watchlist_table s ! i)
         \<and> notification_userId r = userId (watchlist_table s ! i)
         \<and> notification_productId r = watch_productId (watchlist_table s ! i)
         \<and> notification_type r = ''DEAL_ALERT''"
proof -
  from assms(3) obtain r where r: "r \<in> set (queued s (snd (runPriceTick rnd now s)))"
    "payload_watchlistId (notification_payload r) = watch_id (watchlist_table s ! i)"
    using queued_iff_fires[OF assms(1,2), of rnd now] by blast
  from queued_row_fields[OF assms(1,2) r] r show ?thesis by blast
qed

text \<open>
  C4. In one pass of \<open>runPriceTick\<close>, a watch item gets a notification queued exactly when
  its product has a best in-stock offer after the drift and, against that offer, the computed
  drop percentage versus the last-seen baseline is at least \<open>pctDropThreshold\<close>, or
  \<open>targetPriceCents\<close> is set and the best price is at or below it, or shipping-improvement
  tracking is on and the best ETA is below \<open>lastSeenBestEtaDays\<close>. This holds of the list the
  pass returns and of the rows it appends to the pending notifications: a row for the item is
  appended exactly under that condition, it carries the item's user and product and the type
  \<open>DEAL_ALERT\<close>, the rows held before are kept, and the appended rows carry the payloads of
  the returned notifications in their order. With a baseline of 10000 cents, a best price of
  8600 computes a drop below 15 and a best price of 8499 a drop of at least 15. Watch items
  are identified by their primary keys.
\<close>

theorem price_tick_alert_rule:
  assumes "distinct (map watch_id (watchlist_table s))" "i < length (watchlist_table s)"
  shows "(watch_id (watchlist_table s ! i) \<in> watchlistId ` set (notifications (fst (runPriceTick rnd now s)))
          \<longleftrightarrow>
         (\<exists>best. getBestOfferForProduct (driftedStore rnd s) (watch_productId (watchlist_table s ! i)) = Some best
            \<and> (pctDropThreshold (watchlist_table s ! i) \<le> dropPct (watchlist_table s ! i) best
               \<or> (\<exists>t. targetPriceCents (watchlist_table s ! i) = Some t \<and> priceCents best \<le> t)
               \<or> (shippingImprovementOn (watchlist_table s ! i)
                    \<and> (\<exists>e. lastSeenBestEtaDays (watchlist_table s ! i) = Some e \<and> etaDays best < e)))))
       \<and> ((\<exists>r \<in> set (queued s (snd (runPriceTick rnd now s))).
              payload_watchlistId (notification_payload r) = watch_id (watchlist_table s ! i))
          \<longleftrightarrow>
         (\<exists>best. getBestOfferForProduct (driftedStore rnd s) (watch_productId (watchlist_table s ! i)) = Some best
            \<and> (pctDropThreshold (watchlist_table s ! i) \<le> dropPct (watchlist_table s ! i) best
               \<or> (\<exists>t. targetPriceCents (watchlist_table s ! i) = Some t \<and> priceCents best \<le> t)
               \<or> (shippingImprovementOn (watchlist_table s ! i)
                    \<and> (\<exists>e. lastSeenBestEtaDays (watchlist_table s ! i) = Some e \<and> etaDays best < e)))))
       \<and> (\<forall>r \<in> set (queued s (snd (runPriceTick rnd now s))).
             payload_watchlistId (notification_payload r) = watch_id (watchlist_table s ! i) \<longrightarrow>
               notification_userId r = userId (watchlist_table s ! i)
             \<and> notification_productId r = watch_productId (watchlist_table s ! i)
             \<and> notification_type r = ''DEAL_ALERT'')
       \<and> notification_table (snd (runPriceTick rnd now s))
            = notification_table s @ queued s (snd (runPriceTick rnd now s))
       \<and> map notification_payload (queued s (snd (runPriceTick rnd now s)))
            = map notified_payload (notifications (fst (runPriceTick rnd now s)))
       \<and> (\<forall>item best. lastSeenBestPriceCents item = Some 10000 \<longrightarrow>
             (priceCents best = 8600 \<longrightarrow> dropPct item best < 15)
           \<and> (priceCents best = 8499 \<longrightarrow> 15 \<le> dropPct item best))"
proof (intro conjI)
  note rule = price_tick_alert_rule_aux[OF assms, of rnd now]
  show "watch_id (watchlist_table s ! i) \<in> watchlistId ` set (notifications (fst (runPriceTick rnd now s)))
          \<longleftrightarrow>
         (\<exists>best. getBestOfferForProduct (driftedStore rnd s) (watch_productId (watchlist_table s ! i)) = Some best
            \<and> (pctDropThreshold (watchlist_table s ! i) \<le> dropPct (watchlist_table s ! i) best
               \<or> (\<exists>t. targetPriceCents (watchlist_table s ! i) = Some t \<and> priceCents best \<le> t)
               \<or> (shippingImprovementOn (watchlist_table s ! i)
                    \<and> (\<exists>e. lastSeenBestEtaDays (watchlist_table s ! i) = Some e \<and> etaDays best < e))))"
    by (rule rule)
  show "(\<exists>r \<in> set (queued s (snd (runPriceTick rnd now s))).
              payload_watchlistId (notification_payload r) = watch_id (watchlist_table s ! i))
          \<longleftrightarrow>
         (\<exists>best. getBestOfferForProduct (driftedStore rnd s) (watch_productId (watchlist_table s ! i)) = Some best
            \<and> (pctDropThreshold (watchlist_table s ! i) \<le> dropPct (watchlist_table s ! i) best
               \<or> (\<exists>t. targetPriceCents (watchlist_table s ! i) = Some t \<and> priceCents best \<le> t)
               \<or> (shippingImprovementOn (watchlist_table s ! i)
                    \<and> (\<exists>e. lastSeenBestEtaDays (watchlist_table s ! i) = Some e \<and> etaDays best < e))))"
    unfolding queued_iff_fires[OF assms] notified_iff_fires[OF assms, of rnd now, symmetric]
    by (rule rule)
  show "\<forall>r \<in> set (queued s (snd (runPriceTick rnd now s))).
             payload_watchlistId (notification_payload r) = watch_id (watchlist_table s ! i) \<longrightarrow>
               notification_userId r = userId (watchlist_table s ! i)
             \<and> notification_productId r = watch_productId (watchlist_table s ! i)
             \<and> notification_type r = ''DEAL_ALERT''"
    using queued_row_fields[OF assms] by blast
  show "notification_table (snd (runPriceTick rnd now s))
            = notification_table s @ queued s (snd (runPriceTick rnd now s))"
    by (rule queued_appended)
  show "map notification_payload (queued s (snd (runPriceTick rnd now s)))
            = map notified_payload (notifications (fst (runPriceTick rnd now s)))"
    by (rule queued_payloads)
  show "\<forall>item best. lastSeenBestPriceCents item = Some 10000 \<longrightarrow>
             (priceCents best = 8600 \<longrightarrow> dropPct item best < 15)
           \<and> (priceCents best = 8499 \<longrightarrow> 15 \<le> dropPct item best)"
    using dropPct_8600 dropPct_8499 by blast
qed

theorem price_tick_alert_rule_witness:
  "distinct (map watch_id (watchlist_table (example_store [example_offer ''a'' 8499] [example_watch None None])))
   \<and> 0 < length (watchlist_table (example_store [example_offer ''a'' 8499] [example_watch None None]))
   \<and> watch_id (watchlist_table (example_store [example_offer ''a'' 8499] [example_watch None None]) ! 0)
        \<in> watchlistId ` set (notifications (fst (runPriceTick steady 0
              (example_store [example_offer ''a'' 8499] [example_watch None None]))))
   \<and> (\<exists>r \<in> set (queued (example_store [example_offer ''a'' 8499] [example_watch None None])
                  (snd (runPriceTick steady 0
                     (example_store [example_offer ''a'' 8499] [example_watch None None])))).
          payload_watchlistId (notification_payload r)
            = watch_id (watchlist_table (example_store [example_offer ''a'' 8499] [example_watch None None]) ! 0)
        \<and> notification_type r = ''DEAL_ALERT'')
   \<and> length (notification_table (snd (runPriceTick steady 0
         (example_store [example_offer ''a'' 8499] [example_watch None None])))) = 1"
proof -
  let ?s = "example_store [example_offer ''a'' 8499] [example_watch None None]"
  let ?rule = "\<exists>best. getBestOfferForProduct (driftedStore steady ?s) (watch_productId (watchlist_table ?s ! 0)) = Some best
            \<and> (pctDropThreshold (watchlist_table ?s ! 0) \<le> dropPct (watchlist_table ?s ! 0) best
               \<or> (\<exists>t. targetPriceCents (watchlist_table ?s ! 0) = Some t \<and> priceCents best \<le> t)
               \<or> (shippingImprovementOn (watchlist_table ?s ! 0)
                    \<and> (\<exists>e. lastSeenBestEtaDays (watchlist_table ?s ! 0) = Some e \<and> etaDays best < e)))"
  have d: "distinct (map watch_id (watchlist_table ?s))" by (simp add: example_store_def)
  have i: "0 < length (watchlist_table ?s)" by (simp add: example_store_def)
  have w: "watchlist_table ?s ! 0 = example_watch None None" by (simp add: example_store_def)
  have b: "getBestOfferForProduct (driftedStore steady ?s) (watch_productId (watchlist_table ?s ! 0))
      = Some (example_offer ''a'' 8499)"
    unfolding w using example_best_8499[of None] by (simp add: example_watch_def)
  have l: "lastSeenBestPriceCents (watchlist_table ?s ! 0) = Some 10000"
    unfolding w by (simp add: example_watch_def)
  have t: "pctDropThreshold (watchlist_table ?s ! 0) = 15"
    unfolding w by (simp add: example_watch_def)
  have p: "priceCents (example_offer ''a'' 8499) = 8499" by (simp add: example_offer_def)
  note R = price_tick_alert_rule[OF d i, of steady 0]
  from R have R1: "watch_id (watchlist_table ?s ! 0)
        \<in> watchlistId ` set (notifications (fst (runPriceTick steady 0 ?s))) \<longleftrightarrow> ?rule"
    by (rule conjunct1)
  from R have R2: "(\<exists>r \<in> set (queued ?s (snd (runPriceTick steady 0 ?s))).
      payload_watchlistId (notification_payload r) = watch_id (watchlist_table ?s ! 0)) \<longleftrightarrow> ?rule"
    by (elim conjE)
  from R have R3: "\<forall>r \<in> set (queued ?s (snd (runPriceTick steady 0 ?s))).
             payload_watchlistId (notification_payload r) = watch_id (watchlist_table ?s ! 0) \<longrightarrow>
               notification_userId r = userId (watchlist_table ?s ! 0)
             \<and> notification_productId r = watch_productId (watchlist_table ?s ! 0)
             \<and> notification_type r = ''DEAL_ALERT''"
    by (elim conjE)
  from R have R4: "notification_table (snd (runPriceTick steady 0 ?s))
            = notification_table ?s @ queued ?s (snd (runPriceTick steady 0 ?s))"
    by (elim conjE)
  from R have R5: "map notification_payload (queued ?s (snd (runPriceTick steady 0 ?s)))
            = map notified_payload (notifications (fst (runPriceTick steady 0 ?s)))"
    by (elim conjE)
  from R have R6: "\<forall>item best. lastSeenBestPriceCents item = Some 10000 \<longrightarrow>
             (priceCents best = 8600 \<longrightarrow> dropPct item best < 15)
           \<and> (priceCents best = 8499 \<longrightarrow> 15 \<le> dropPct item best)"
    by (elim conjE)
  from R6 l p have "15 \<le> dropPct (watchlist_table ?s ! 0) (example_offer ''a'' 8499)" by blast
  with b t have rule: ?rule by auto
  have n: "watch_id (watchlist_table ?s ! 0)
        \<in> watchlistId ` set (notifications (fst (runPriceTick steady 0 ?s)))"
    using R1 rule by blast
  from R2 rule obtain r where r: "r \<in> set (queued ?s (snd (runPriceTick steady 0 ?s)))"
    "payload_watchlistId (notification_payload r) = watch_id (watchlist_table ?s ! 0)"
    by blast
  with R3 have ty: "notification_type r = ''DEAL_ALERT''" by blast
  have q: "\<exists>r \<in> set (queued ?s (snd (runPriceTick steady 0 ?s))).
          payload_watchlistId (notification_payload r) = watch_id (watchlist_table ?s ! 0)
        \<and> notification_type r = ''DEAL_ALERT''"
    using r ty by blast
  have one: "length (notifications (fst (runPriceTick steady 0 ?s))) = 1" by code_simp
  have "length (queued ?s (snd (runPriceTick steady 0 ?s))) = 1"
    using arg_cong[OF R5, of length] one by simp
  then have len: "length (notification_table (snd (runPriceTick steady 0 ?s))) = 1"
    using arg_cong[OF R4, of length] by (simp add: example_store_def)
  from d i n q len show ?thesis by (intro conjI)
qed

lemma example_quiet_8600:
  "notifications (fst (runPriceTick steady 0
     (example_store [example_offer ''a'' 8600] [example_watch None None]))) = []"
  by code_simp

text \<open>
  C8. A watch item for which the pass queues no notification keeps its row as it was: the
  baseline \<open>lastSeenBestPriceCents\<close>, \<open>lastSeenBestEtaDays\<close> and \<open>lastNotifiedAt\<close> are
  not advanced.
\<close>

theorem price_tick_non_firing_unchanged:
  assumes "distinct (map watch_id (watchlist_table s))" "i < length (watchlist_table s)"
    and "watch_id (watchlist_table s ! i) \<notin> watchlistId ` set (notifications (fst (runPriceTick rnd now s)))"
  shows "length (watchlist_table (snd (runPriceTick rnd now s))) = length (watchlist_table s)
       \<and> watchlist_table (snd (runPriceTick rnd now s)) ! i = watchlist_table s ! i"
proof -
  let ?ws = "watchlist_table s"
  let ?s1 = "driftedStore rnd s"
  have nf: "\<not> alertFires ?s1 (?ws ! i)"
    using assms(3) notified_iff_fires[OF assms(1,2)] by blast
  have inj: "inj_on watch_id (set ?ws)"
    using assms(1) by (simp add: distinct_map)
  have "watch_id (?ws ! i) \<notin> watch_id ` {w \<in> set ?ws. alertFires ?s1 w}"
  proof
    assume "watch_id (?ws ! i) \<in> watch_id ` {w \<in> set ?ws. alertFires ?s1 w}"
    then obtain w where w: "w \<in> set ?ws" "alertFires ?s1 w" "watch_id w = watch_id (?ws ! i)"
      by auto
    then have "w = ?ws ! i" using inj assms(2) by (auto dest: inj_onD)
    then show False using w nf by simp
  qed
  then show ?thesis
    using tickWatchItems_rows[of now ?ws ?s1] assms(2)
    by (simp add: runPriceTick_store driftedStore_watchlist)
qed


theorem price_tick_non_firing_unchanged_witness:
  "distinct (map watch_id (watchlist_table (example_store [example_offer ''a'' 8600] [example_watch None None])))
   \<and> 0 < length (watchlist_table (example_store [example_offer ''a'' 8600] [example_watch None None]))
   \<and> watch_id (watchlist_table (example_store [example_offer ''a'' 8600] [example_watch None None]) ! 0)
        \<notin> watchlistId ` set (notifications (fst (runPriceTick steady 0
              (example_store [example_offer ''a'' 8600] [example_watch None None]))))
   \<and> watchlist_table (snd (runPriceTick steady 0
         (example_store [example_offer ''a'' 8600] [example_watch None None]))) ! 0 = example_watch None None"
proof -
  let ?s = "example_store [example_offer ''a'' 8600] [example_watch None None]"
  have d: "distinct (map watch_id (watchlist_table ?s))" by (simp add: example_store_def)
  have i: "0 < length (watchlist_table ?s)" by (simp add: example_store_def)
  have n: "watch_id (watchlist_table ?s ! 0) \<notin> watchlistId ` set (notifications (fst (runPriceTick steady 0 ?s)))"
    by (simp add: example_quiet_8600)
  have w: "watchlist_table ?s ! 0 = example_watch None None" by (simp add: example_store_def)
  from price_tick_non_firing_unchanged[OF d i n] show ?thesis using d i n w by simp
qed

lemma steady_range: "\<forall>k. 0 \<le> steady k \<and> steady k < 1"
  by (simp add: steady_def)

text \<open>
  C9. One pass replaces the price of every stored offer by
  \<open>clamp(Math.round(price * (1 + d)), 50, 500000)\<close> for a drift \<open>d\<close> between the doubles
  written \<open>-0.02\<close> and \<open>0.02\<close>, and its ETA by \<open>clamp(eta + shift, 1, 10)\<close> for a shift of
  \<open>-1\<close>, \<open>0\<close> or \<open>1\<close>; an offer priced 10000 cents ends between 9800 and 10200. The random
  source draws from \<open>[0, 1)\<close>, as \<open>Math.random()\<close> does, and offers are identified by their
  primary keys.
\<close>

theorem price_tick_offer_drift:
  assumes "\<forall>k. 0 \<le> rnd k \<and> rnd k < 1"
    and "distinct (map offer_id (offer_table s))" and "i < length (offer_table s)"
  shows "length (offer_table (snd (runPriceTick rnd now s))) = length (offer_table s)
     \<and> (\<exists>d sh. dbl (- 2 / 100) \<le> d \<and> d \<le> dbl (2 / 100) \<and> sh \<in> {- 1, 0, 1}
          \<and> offer_table (snd (runPriceTick rnd now s)) ! i =
              (offer_table s ! i)
                \<lparr>priceCents := clamp (Math_round (js_mul (of_int (priceCents (offer_table s ! i)))
                                  (js_add 1 d))) 50 500000,
                 etaDays := clamp (etaDays (offer_table s ! i) + sh) 1 10\<rparr>)
     \<and> 50 \<le> priceCents (offer_table (snd (runPriceTick rnd now s)) ! i)
     \<and> priceCents (offer_table (snd (runPriceTick rnd now s)) ! i) \<le> 500000
     \<and> 1 \<le> etaDays (offer_table (snd (runPriceTick rnd now s)) ! i)
     \<and> etaDays (offer_table (snd (runPriceTick rnd now s)) ! i) \<le> 10
     \<and> (priceCents (offer_table s ! i) = 10000 \<longrightarrow>
           9800 \<le> priceCents (offer_table (snd (runPriceTick rnd now s)) ! i)
         \<and> priceCents (offer_table (snd (runPriceTick rnd now s)) ! i) \<le> 10200)"
proof -
  let ?old = "offer_table s ! i"
  let ?tbl = "offer_table (snd (runPriceTick rnd now s))"
  have tbl: "?tbl = offer_table (snd (tickOffers rnd 0 (offer_table s) s))"
    by (simp only: runPriceTick_offer_table driftedStore_def)
  note rows = tickOffers_rows[OF assms(2), of rnd 0 s]
  have len: "length ?tbl = length (offer_table s)" using rows by (simp only: tbl)
  have "?old \<in> set (offer_table s)" using assms(3) by simp
  then obtain k' where new: "?tbl ! i =
      ?old\<lparr>priceCents := fst (tickOffer rnd k' ?old), etaDays := fst (snd (tickOffer rnd k' ?old))\<rparr>"
    using rows assms(3) unfolding tbl by blast
  from tickOffer_form[OF assms(1), of k' ?old] obtain d sh where
    d: "dbl (- 2 / 100) \<le> d" "d \<le> dbl (2 / 100)" and sh: "sh \<in> {- 1, 0, 1}"
    and p: "fst (tickOffer rnd k' ?old) =
        clamp (Math_round (js_mul (of_int (priceCents ?old)) (js_add 1 d))) 50 500000"
    and e: "fst (snd (tickOffer rnd k' ?old)) = clamp (etaDays ?old + sh) 1 10"
    by blast
  have form: "\<exists>d sh. dbl (- 2 / 100) \<le> d \<and> d \<le> dbl (2 / 100) \<and> sh \<in> {- 1, 0, 1}
          \<and> ?tbl ! i = ?old\<lparr>priceCents := clamp (Math_round (js_mul (of_int (priceCents ?old))
                                  (js_add 1 d))) 50 500000,
                 etaDays := clamp (etaDays ?old + sh) 1 10\<rparr>"
    using d sh new unfolding p e by blast
  have bounds: "50 \<le> priceCents (?tbl ! i) \<and> priceCents (?tbl ! i) \<le> 500000
       \<and> 1 \<le> etaDays (?tbl ! i) \<and> etaDays (?tbl ! i) \<le> 10"
    using tickOffer_bounds[of rnd k' ?old] by (simp add: new)
  have ex: "9800 \<le> priceCents (?tbl ! i) \<and> priceCents (?tbl ! i) \<le> 10200"
    if "priceCents ?old = 10000"
  proof -
    have "priceCents (?tbl ! i) = clamp (Math_round (js_mul (of_int 10000) (js_add 1 d))) 50 500000"
      using that by (simp add: new p)
    then show ?thesis
      using drifted_price_10000[OF d] by (simp add: clamp_def)
  qed
  show ?thesis using len form bounds ex by blast
qed

theorem price_tick_offer_drift_witness:
  "(\<forall>k. 0 \<le> steady k \<and> steady k < 1)
   \<and> distinct (map offer_id (offer_table (example_store [example_offer ''a'' 10000] [])))
   \<and> 0 < length (offer_table (example_store [example_offer ''a'' 10000] []))
   \<and> 9800 \<le> priceCents (offer_table (snd (runPriceTick steady 0 (example_store [example_offer ''a'' 10000] []))) ! 0)
   \<and> priceCents (offer_table (snd (runPriceTick steady 0 (example_store [example_offer ''a'' 10000] []))) ! 0) \<le> 10200"
proof -
  let ?s = "example_store [example_offer ''a'' 10000] []"
  have d: "distinct (map offer_id (offer_table ?s))" by (simp add: example_store_def)
  have i: "0 < length (offer_table ?s)" by (simp add: example_store_def)
  have p: "priceCents (offer_table ?s ! 0) = 10000" by (simp add: example_store_def example_offer_def)
  from price_tick_offer_drift[OF steady_range d i, of 0] p show ?thesis
    using steady_range d i by blast
qed

lemma example_best_second:
  "getBestOfferForProduct (driftedStore steady (snd (runPriceTick steady 0
      (example_store [example_offer ''a'' 8499] [example_watch (Some 9000) None])))) ''p1''
     = Some (example_offer ''a'' 8499)"
  by code_simp

text \<open>
  C10. A watch item whose target price is met or beaten by the best offer gets a notification
  on every pass in which that holds, whatever its \<open>lastNotifiedAt\<close> and although the pass
  before has just fired and advanced its baseline: the alert fires in a pass and again in the
  pass that follows it. Each of the two passes returns a notification for the item and
  appends a \<open>DEAL_ALERT\<close> row for it to the pending notifications, so that the table ends
  with the rows of the first pass followed by the rows of the second.
\<close>

theorem target_alert_every_tick:
  assumes "distinct (map watch_id (watchlist_table s))" "i < length (watchlist_table s)"
    and "targetPriceCents (watchlist_table s ! i) = Some t"
    and "getBestOfferForProduct (driftedStore rnd s) (watch_productId (watchlist_table s ! i)) = Some b"
    and "priceCents b \<le> t"
    and "getBestOfferForProduct (driftedStore rnd' (snd (runPriceTick rnd now s)))
           (watch_productId (watchlist_table s ! i)) = Some b'"
    and "priceCents b' \<le> t"
  shows "watch_id (watchlist_table s ! i) \<in> watchlistId ` set (notifications (fst (runPriceTick rnd now s)))
       \<and> watch_id (watchlist_table s ! i) \<in>
           watchlistId ` set (notifications (fst (runPriceTick rnd' now' (snd (runPriceTick rnd now s)))))
       \<and> (\<exists>r \<in> set (queued s (snd (runPriceTick rnd now s))).
             payload_watchlistId (notification_payload r) = watch_id (watchlist_table s ! i)
           \<and> notification_userId r = userId (watchlist_table s ! i)
           \<and> notification_productId r = watch_productId (watchlist_table s ! i)
           \<and> notification_type r = ''DEAL_ALERT'')
       \<and> (\<exists>r \<in> set (queued (snd (runPriceTick rnd now s))
                        (snd (runPriceTick rnd' now' (snd (runPriceTick rnd now s))))).
             payload_watchlistId (notification_payload r) = watch_id (watchlist_table s ! i)
           \<and> notification_userId r = userId (watchlist_table s ! i)
           \<and> notification_productId r = watch_productId (watchlist_table s ! i)
           \<and> notification_type r = ''DEAL_ALERT'')
       \<and> notification_table (snd (runPriceTick rnd' now' (snd (runPriceTick rnd now s))))
           = notification_table s @ queued s (snd (runPriceTick rnd now s))
               @ queued (snd (runPriceTick rnd now s))
                   (snd (runPriceTick rnd' now' (snd (runPriceTick rnd now s))))"
proof -
  let ?item = "watchlist_table s ! i"
  let ?s' = "snd (runPriceTick rnd now s)"
  let ?s'' = "snd (runPriceTick rnd' now' ?s')"
  have first: "watch_id ?item \<in> watchlistId ` set (notifications (fst (runPriceTick rnd now s)))"
    using price_tick_alert_rule_aux[OF assms(1,2), of rnd now] assms(3,4,5) by blast
  note rows = tickWatchItems_rows[of now "watchlist_table s" "driftedStore rnd s"]
  have wl: "watchlist_table ?s' =
      watchlist_table (snd (tickWatchItems now (watchlist_table s) (driftedStore rnd s)))"
    by (simp only: runPriceTick_store driftedStore_watchlist)
  have len: "length (watchlist_table ?s') = length (watchlist_table s)"
    using rows by (simp add: wl driftedStore_watchlist)
  have same: "\<And>j. j < length (watchlist_table s) \<Longrightarrow>
      watch_id (watchlist_table ?s' ! j) = watch_id (watchlist_table s ! j)
      \<and> targetPriceCents (watchlist_table ?s' ! j) = targetPriceCents (watchlist_table s ! j)
      \<and> watch_productId (watchlist_table ?s' ! j) = watch_productId (watchlist_table s ! j)"
    using rows by (simp add: wl driftedStore_watchlist)
  have "map watch_id (watchlist_table ?s') = map watch_id (watchlist_table s)"
    using len same by (intro nth_equalityI) auto
  then have dist: "distinct (map watch_id (watchlist_table ?s'))" using assms(1) by simp
  have i': "i < length (watchlist_table ?s')" using len assms(2) by simp
  have uid: "userId (watchlist_table ?s' ! i) = userId ?item"
    using arg_cong[OF runPriceTick_userId[of rnd now s], of "\<lambda>xs. xs ! i"] assms(2) i'
    by simp
  have second': "watch_id (watchlist_table ?s' ! i) \<in>
      watchlistId ` set (notifications (fst (runPriceTick rnd' now' ?s')))"
    using price_tick_alert_rule_aux[OF dist i', of rnd' now'] same[OF assms(2)] assms(3,6,7) by auto
  then have second: "watch_id ?item \<in>
      watchlistId ` set (notifications (fst (runPriceTick rnd' now' ?s')))"
    using same[OF assms(2)] by simp
  have f1: "alertFires (driftedStore rnd s) ?item"
    using first notified_iff_fires[OF assms(1,2), of rnd now] by blast
  have f2: "alertFires (driftedStore rnd' ?s') (watchlist_table ?s' ! i)"
    using second' notified_iff_fires[OF dist i', of rnd' now'] by blast
  note q1 = queued_for_item[OF assms(1,2) f1, of now]
  have q2: "\<exists>r \<in> set (queued ?s' ?s'').
             payload_watchlistId (notification_payload r) = watch_id ?item
           \<and> notification_userId r = userId ?item
           \<and> notification_productId r = watch_productId ?item
           \<and> notification_type r = ''DEAL_ALERT''"
    using queued_for_item[OF dist i' f2, of now'] same[OF assms(2)] uid by simp
  have tbl: "notification_table ?s'' = notification_table s @ queued s ?s' @ queued ?s' ?s''"
    using queued_appended[of rnd' now' ?s'] queued_appended[of rnd now s] by simp
  from first second q1 q2 tbl show ?thesis by (intro conjI)
qed

theorem target_alert_every_tick_witness:
  "distinct (map watch_id (watchlist_table (example_store [example_offer ''a'' 8499] [example_watch (Some 9000) None])))
   \<and> 0 < length (watchlist_table (example_store [example_offer ''a'' 8499] [example_watch (Some 9000) None]))
   \<and> watch_id (watchlist_table (example_store [example_offer ''a'' 8499] [example_watch (Some 9000) None]) ! 0)
        \<in> watchlistId ` set (notifications (fst (runPriceTick steady 0
              (example_store [example_offer ''a'' 8499] [example_watch (Some 9000) None]))))
   \<and> watch_id (watchlist_table (example_store [example_offer ''a'' 8499] [example_watch (Some 9000) None]) ! 0)
        \<in> watchlistId ` set (notifications (fst (runPriceTick steady 1 (snd (runPriceTick steady 0
              (example_store [example_offer ''a'' 8499] [example_watch (Some 9000) None]))))))
   \<and> map (\<lambda>r. (payload_watchlistId (notification_payload r), notification_type r))
        (notification_table (snd (runPriceTick steady 1 (snd (runPriceTick steady 0
              (example_store [example_offer ''a'' 8499] [example_watch (Some 9000) None]))))))
       = [(''w1'', ''DEAL_ALERT''), (''w1'', ''DEAL_ALERT'')]"
proof -
  let ?s = "example_store [example_offer ''a'' 8499] [example_watch (Some 9000) None]"
  have d: "distinct (map watch_id (watchlist_table ?s))" by (simp add: example_store_def)
  have i: "0 < length (watchlist_table ?s)" by (simp add: example_store_def)
  have w: "watchlist_table ?s ! 0 = example_watch (Some 9000) None" by (simp add: example_store_def)
  have t: "targetPriceCents (watchlist_table ?s ! 0) = Some 9000" unfolding w by (simp add: example_watch_def)
  have pid: "watch_productId (watchlist_table ?s ! 0) = ''p1''" unfolding w by (simp add: example_watch_def)
  have b1: "getBestOfferForProduct (driftedStore steady ?s) (watch_productId (watchlist_table ?s ! 0))
      = Some (example_offer ''a'' 8499)"
    unfolding pid by (rule example_best_8499)
  have b2: "getBestOfferForProduct (driftedStore steady (snd (runPriceTick steady 0 ?s)))
      (watch_productId (watchlist_table ?s ! 0)) = Some (example_offer ''a'' 8499)"
    unfolding pid by (rule example_best_second)
  have p: "priceCents (example_offer ''a'' 8499) \<le> 9000" by (simp add: example_offer_def)
  have tbl: "map (\<lambda>r. (payload_watchlistId (notification_payload r), notification_type r))
        (notification_table (snd (runPriceTick steady 1 (snd (runPriceTick steady 0 ?s)))))
       = [(''w1'', ''DEAL_ALERT''), (''w1'', ''DEAL_ALERT'')]"
    by code_simp
  note R = target_alert_every_tick[OF d i t b1 p b2 p, of 1]
  from R have R1: "watch_id (watchlist_table ?s ! 0)
        \<in> watchlistId ` set (notifications (fst (runPriceTick steady 0 ?s)))"
    by (rule conjunct1)
  from R have R2: "watch_id (watchlist_table ?s ! 0)
        \<in> watchlistId ` set (notifications (fst (runPriceTick steady 1 (snd (runPriceTick steady 0 ?s)))))"
    by (elim conjE)
  from d i R1 R2 tbl show ?thesis by (intro conjI)
qed

section \<open>Properties of the offer aggregator\<close>

lemma upsertOffer_available: "available (upsertOffer pid prow c s) = available s"
  by (simp add: upsertOffer_def Let_def split: option.splits cents.splits)

lemma foldl_upsert_available:
  "available (foldl (\<lambda>st c. upsertOffer pid prow c st) s cs) = available s"
  by (induction cs arbitrary: s) (simp_all add: upsertOffer_available)

lemma createOffer_available: "createOffer row s = Inr s' \<Longrightarrow> available s' = available s"
  by (auto simp: createOffer_def split: if_splits)

lemma createFallbacks_available:
  "available (snd (createFallbacks prow pid basePrice fbs seen s)) = available s"
proof (induction fbs arbitrary: seen s)
  case Nil
  show ?case by simp
next
  case (Cons fb rest)
  show ?case
    by (auto simp: Cons.IH Let_def createOffer_available split: sum.splits)
qed

lemma refresh_available:
  "available (snd (refreshWebOffersForProduct cfg amazonAdapter shoppingAdapter pid strategy s)) = available s"
  by (simp add: refreshWebOffersForProduct_def Let_def createFallbacks_available
      foldl_upsert_available split: option.splits)

lemma refresh_missing_product:
  "available s \<Longrightarrow> findProduct s pid = None \<Longrightarrow>
     refreshWebOffersForProduct cfg amazonAdapter shoppingAdapter pid strategy s = (None, s)"
  by (simp add: refreshWebOffersForProduct_def)

lemma recommended_Nil: "recommendedOfferIdForStrategy [] strategy = None"
  by (simp add: recommendedOfferIdForStrategy_def)

text \<open>
  C2. Whatever the two adapters do, reject or return, \<open>getRankedOffers\<close> returns a result
  as long as the store is available; no provider failure reaches the caller. For a product id
  that names no product it returns an empty offer list and \<open>null\<close> as the recommended id,
  and leaves the store as it was. Offers belong to products: every offer row refers to a
  product of the store.
\<close>

theorem getRankedOffers_isolates_provider_failures:
  "(available s \<longrightarrow>
      (\<exists>r s'. getRankedOffers cfg amazonAdapter shoppingAdapter pid strategy refreshLive s = Inr (r, s')))
   \<and> (available s \<and> findProduct s pid = None
        \<and> list_all (\<lambda>r. findProduct s (productId r) \<noteq> None) (offer_table s) \<longrightarrow>
      getRankedOffers cfg amazonAdapter shoppingAdapter pid strategy refreshLive s =
        Inr (\<lparr>ranked = [], recommendedOfferId = None, ranked_strategy = strategy\<rparr>, s))"
proof (intro conjI impI)
  assume "available s"
  then show "\<exists>r s'. getRankedOffers cfg amazonAdapter shoppingAdapter pid strategy refreshLive s = Inr (r, s')"
    by (simp add: getRankedOffers_def Let_def refresh_available)
next
  assume a: "available s \<and> findProduct s pid = None
        \<and> list_all (\<lambda>r. findProduct s (productId r) \<noteq> None) (offer_table s)"
  then have "\<forall>r \<in> set (offer_table s). productId r \<noteq> pid"
    by (auto simp: list_all_iff)
  then have none: "filter (\<lambda>r. productId r = pid \<and> inStock r) (offer_table s) = []"
    by (auto simp: filter_empty_conv)
  show "getRankedOffers cfg amazonAdapter shoppingAdapter pid strategy refreshLive s =
        Inr (\<lparr>ranked = [], recommendedOfferId = None, ranked_strategy = strategy\<rparr>, s)"
    using a none
    by (simp add: getRankedOffers_def Let_def refresh_missing_product recommended_Nil)
qed


lemma fallback_prices:
  "max 99 (Math_round (js_mul (of_int 1999) (dbl (92 / 100)))) = 1839"
  "max 99 (Math_round (js_mul (of_int 1999) (dbl (98 / 100)))) = 1959"
  "max 99 (Math_round (js_mul (of_int 1999) (dbl (103 / 100)))) = 2059"
  by code_simp+

lemma fallback_prices_normal:
  "max 99 (Math_round (js_mul 1999 (dbl (23 / 25)))) = 1839"
  "max 99 (Math_round (js_mul 1999 (dbl (49 / 50)))) = 1959"
  "max 99 (Math_round (js_mul 1999 (dbl (103 / 100)))) = 2059"
  by code_simp+

lemma new_offer_id_not_empty: "new_offer_id n \<noteq> []"
  by (simp add: new_offer_id_def)

lemma normalizeOffer_fields:
  "offer_id (normalizeOffer r) = offer_id r" "vendorId (normalizeOffer r) = vendorId r"
  "vendorName (normalizeOffer r) = vendorName r" "priceCents (normalizeOffer r) = priceCents r"
  "shippingCents (normalizeOffer r) = shippingCents r" "etaDays (normalizeOffer r) = etaDays r"
  "inStock (normalizeOffer r) = inStock r" "productId (normalizeOffer r) = productId r"
  by (simp_all add: normalizeOffer_def Let_def)

text \<open>The rows the fallback loop writes for a product without offers of the fallback vendors.\<close>

lemma createFallbacks_fresh:
  assumes "\<not> list_ex (\<lambda>r. productId r = pid \<and>
              vendorId r \<in> {''fallback:ebay'', ''fallback:walmart'', ''fallback:target''}) (offer_table s)"
  shows "createFallbacks prow pid 1999 (fallbacks q) [] s =
     (None, s\<lparr>offer_table := offer_table s @
          [\<lparr>offer_id = new_offer_id (next_id s), vendorId = ''fallback:ebay'', vendorName = ''eBay'',
             productId = pid, title = product_title prow, priceCents = 1839, shippingCents = 0,
             etaDays = 6, inStock = True, productUrl = ''https://www.ebay.com/sch/i.html?_nkw='' @ q\<rparr>,
           \<lparr>offer_id = new_offer_id (Suc (next_id s)), vendorId = ''fallback:walmart'',
             vendorName = ''Walmart'', productId = pid, title = product_title prow, priceCents = 1959,
             shippingCents = 0, etaDays = 4, inStock = True,
             productUrl = ''https://www.walmart.com/search?q='' @ q\<rparr>,
           \<lparr>offer_id = new_offer_id (Suc (Suc (next_id s))), vendorId = ''fallback:target'',
             vendorName = ''Target'', productId = pid, title = product_title prow, priceCents = 2059,
             shippingCents = 0, etaDays = 5, inStock = True,
             productUrl = ''https://www.target.com/s?searchTerm='' @ q\<rparr>],
        next_id := Suc (Suc (Suc (next_id s)))\<rparr>)"
proof -
  have free: "\<And>v. v \<in> {''fallback:ebay'', ''fallback:walmart'', ''fallback:target''} \<Longrightarrow>
      \<not> list_ex (\<lambda>r. productId r = pid \<and> vendorId r = v) (offer_table s)"
    using assms by (auto simp: list_ex_iff)
  show ?thesis
    using free[of "''fallback:ebay''"] free[of "''fallback:walmart''"] free[of "''fallback:target''"]
    by (simp add: fallbacks_def createOffer_def Let_def fallback_prices_normal)
qed


lemma recommended_three_fallbacks:
  assumes "map priceCents xs = [1839, 1959, 2059]" "map shippingCents xs = [0, 0, 0]"
    and "map inStock xs = [True, True, True]" and "offer_id (xs ! 0) \<noteq> []"
  shows "recommendedOfferIdForStrategy xs ''BEST_PRICE'' = Some (offer_id (xs ! 0))"
proof -
  from assms(1) obtain a b c where xs: "xs = [a, b, c]"
    by (cases xs; cases "tl xs"; cases "tl (tl xs)"; cases "tl (tl (tl xs))") auto
  show ?thesis
    using assms unfolding xs
    by (simp add: recommendedOfferIdForStrategy_def toUpperCase_BEST_PRICE js_sort_def
        compareOffers_def Let_def)
qed

text \<open>
  A product whose brand and title are blank has a blank query, and the refresh leaves the
  store as it is; the no-break space counts as blank.
\<close>

lemma refresh_blank_query:
  assumes "available s" "findProduct s pid = Some prow"
    and "normalizeWhitespace (trim (brand prow @ '' '' @ product_title prow)) = []"
  shows "refreshWebOffersForProduct cfg amazonAdapter shoppingAdapter pid strategy s = (None, s)"
  using assms by (simp add: refreshWebOffersForProduct_def)

lemma no_break_space_query_blank:
  "normalizeWhitespace (trim ([CHR 0xA0] @ '' '' @ [CHR 0xA0, CHR 0x09])) = []"
  by code_simp

text \<open>
  C3. With live web search disabled, a product without in-stock offers, and without rows of
  the fallback vendors, whose brand and title are not both blank (white space only, the
  no-break space included), gets exactly three fallback offers on a refresh: eBay at
  \<open>max(99, round(1999 * 0.92)) = 1839\<close> cents and 6 days, Walmart at
  \<open>max(99, round(1999 * 0.98)) = 1959\<close> cents and 4 days, Target at
  \<open>max(99, round(1999 * 1.03)) = 2059\<close> cents and 5 days, under vendor ids that are pairwise
  different and new for the product; \<open>BEST_PRICE\<close> then recommends the id of the eBay offer.
\<close>

theorem fallback_synthesis_three_offers:
  assumes "available s"
    and "\<not> (enableWebSearchOffers cfg \<and> enableSerpApiProxy cfg \<and> serpApiApiKey cfg \<noteq> [])"
    and "findProduct s pid = Some prow"
    and "normalizeWhitespace (trim (brand prow @ '' '' @ product_title prow)) \<noteq> []"
    and "filter (\<lambda>r. productId r = pid \<and> inStock r) (offer_table s) = []"
    and "\<not> list_ex (\<lambda>r. productId r = pid \<and>
              vendorId r \<in> {''fallback:ebay'', ''fallback:walmart'', ''fallback:target''}) (offer_table s)"
  shows "\<exists>r s'. getRankedOffers cfg amazonAdapter shoppingAdapter pid ''BEST_PRICE'' True s = Inr (r, s')
     \<and> length (offer_table s') = length (offer_table s) + 3
     \<and> take (length (offer_table s)) (offer_table s') = offer_table s
     \<and> ranked r = map normalizeOffer (drop (length (offer_table s)) (offer_table s'))
     \<and> map vendorId (ranked r) = [''fallback:ebay'', ''fallback:walmart'', ''fallback:target'']
     \<and> map vendorName (ranked r) = [''eBay'', ''Walmart'', ''Target'']
     \<and> map priceCents (ranked r) =
           [max 99 (Math_round (js_mul 1999 (dbl (92 / 100)))),
            max 99 (Math_round (js_mul 1999 (dbl (98 / 100)))),
            max 99 (Math_round (js_mul 1999 (dbl (103 / 100))))]
     \<and> map priceCents (ranked r) = [1839, 1959, 2059]
     \<and> map etaDays (ranked r) = [6, 4, 5]
     \<and> map shippingCents (ranked r) = [0, 0, 0]
     \<and> distinct (map vendorId (ranked r))
     \<and> set (map vendorId (ranked r)) \<inter>
           vendorId ` {x \<in> set (offer_table s). productId x = pid} = {}
     \<and> recommendedOfferId r = Some (offer_id (ranked r ! 0))"
proof -
  define q where "q = encodeURIComponent (normalizeWhitespace (trim (brand prow @ '' '' @ product_title prow)))"
  define rows where "rows =
          [\<lparr>offer_id = new_offer_id (next_id s), vendorId = ''fallback:ebay'', vendorName = ''eBay'',
             productId = pid, title = product_title prow, priceCents = 1839, shippingCents = 0,
             etaDays = 6, inStock = True, productUrl = ''https://www.ebay.com/sch/i.html?_nkw='' @ q\<rparr>,
           \<lparr>offer_id = new_offer_id (Suc (next_id s)), vendorId = ''fallback:walmart'',
             vendorName = ''Walmart'', productId = pid, title = product_title prow, priceCents = 1959,
             shippingCents = 0, etaDays = 4, inStock = True,
             productUrl = ''https://www.walmart.com/search?q='' @ q\<rparr>,
           \<lparr>offer_id = new_offer_id (Suc (Suc (next_id s))), vendorId = ''fallback:target'',
             vendorName = ''Target'', productId = pid, title = product_title prow, priceCents = 2059,
             shippingCents = 0, etaDays = 5, inStock = True,
             productUrl = ''https://www.target.com/s?searchTerm='' @ q\<rparr>]"
  define s' where "s' = s\<lparr>offer_table := offer_table s @ rows,
                            next_id := Suc (Suc (Suc (next_id s)))\<rparr>"
  have cf: "createFallbacks prow pid 1999 (fallbacks q) [] s = (None, s')"
    using createFallbacks_fresh[OF assms(6), of prow q] by (simp only: s'_def rows_def)
  have live: "(enableWebSearchOffers cfg \<and> enableSerpApiProxy cfg \<and> serpApiApiKey cfg \<noteq> []) = False"
    using assms(2) by blast
  have qne: "(normalizeWhitespace (trim (brand prow @ '' '' @ product_title prow)) = []) = False"
    using assms(4) by blast
  have refresh: "refreshWebOffersForProduct cfg amazonAdapter shoppingAdapter pid ''BEST_PRICE'' s = (None, s')"
    unfolding refreshWebOffersForProduct_def Let_def live
    using assms(1,3,4,5) cf[unfolded q_def] by simp
  have found: "filter (\<lambda>r. productId r = pid \<and> inStock r) (offer_table s') = rows"
    using assms(5) by (simp add: s'_def rows_def)
  define r where "r = \<lparr>ranked = map normalizeOffer rows,
      recommendedOfferId = recommendedOfferIdForStrategy (map normalizeOffer rows) ''BEST_PRICE'',
      ranked_strategy = ''BEST_PRICE''\<rparr>"
  have av: "available s'" using assms(1) by (simp add: s'_def)
  have get: "getRankedOffers cfg amazonAdapter shoppingAdapter pid ''BEST_PRICE'' True s = Inr (r, s')"
    by (simp add: getRankedOffers_def Let_def refresh found r_def av)
  have ranked: "ranked r = map normalizeOffer rows" by (simp add: r_def)
  have prices: "map priceCents (ranked r) = [1839, 1959, 2059]"
    by (simp add: ranked rows_def normalizeOffer_fields)
  have ship: "map shippingCents (ranked r) = [0, 0, 0]"
    by (simp add: ranked rows_def normalizeOffer_fields)
  have stock: "map inStock (ranked r) = [True, True, True]"
    by (simp add: ranked rows_def normalizeOffer_fields)
  have vids: "map vendorId (ranked r) = [''fallback:ebay'', ''fallback:walmart'', ''fallback:target'']"
    by (simp add: ranked rows_def normalizeOffer_fields)
  have id0: "offer_id (ranked r ! 0) \<noteq> []"
    by (simp add: ranked rows_def normalizeOffer_fields new_offer_id_not_empty)
  have rec: "recommendedOfferId r = Some (offer_id (ranked r ! 0))"
    using recommended_three_fallbacks[OF prices ship stock id0] by (simp add: r_def)
  have fresh: "set (map vendorId (ranked r)) \<inter> vendorId ` {x \<in> set (offer_table s). productId x = pid} = {}"
    using assms(6) unfolding vids by (auto simp: list_ex_iff)
  have len: "length (offer_table s') = length (offer_table s) + 3"
    by (simp add: s'_def rows_def)
  have tk: "take (length (offer_table s)) (offer_table s') = offer_table s"
    by (simp add: s'_def)
  have dr: "ranked r = map normalizeOffer (drop (length (offer_table s)) (offer_table s'))"
    by (simp add: s'_def ranked)
  have names: "map vendorName (ranked r) = [''eBay'', ''Walmart'', ''Target'']"
    by (simp add: ranked rows_def normalizeOffer_fields)
  have etas: "map etaDays (ranked r) = [6, 4, 5]"
    by (simp add: ranked rows_def normalizeOffer_fields)
  have formula: "map priceCents (ranked r) =
           [max 99 (Math_round (js_mul 1999 (dbl (92 / 100)))),
            max 99 (Math_round (js_mul 1999 (dbl (98 / 100)))),
            max 99 (Math_round (js_mul 1999 (dbl (103 / 100))))]"
    unfolding prices using fallback_prices by simp
  have dist: "distinct (map vendorId (ranked r))" unfolding vids by simp
  show ?thesis
    by (intro exI[of _ r] exI[of _ s'] conjI)
      (fact get len tk dr vids names formula prices etas ship dist fresh rec)+
qed


lemma example_query:
  "normalizeWhitespace (trim (''Acme'' @ '' '' @ ''Headphones'')) = ''Acme Headphones''"
  by code_simp

theorem fallback_synthesis_three_offers_witness:
  "available (example_store [] [])
   \<and> \<not> (enableWebSearchOffers no_live_search \<and> enableSerpApiProxy no_live_search
         \<and> serpApiApiKey no_live_search \<noteq> [])
   \<and> findProduct (example_store [] []) ''p1''
        = Some \<lparr>product_id = ''p1'', product_title = ''Headphones'', brand = ''Acme''\<rparr>
   \<and> normalizeWhitespace (trim (''Acme'' @ '' '' @ ''Headphones'')) \<noteq> []
   \<and> filter (\<lambda>r. productId r = ''p1'' \<and> inStock r) (offer_table (example_store [] [])) = []
   \<and> \<not> list_ex (\<lambda>r. productId r = ''p1'' \<and>
              vendorId r \<in> {''fallback:ebay'', ''fallback:walmart'', ''fallback:target''})
          (offer_table (example_store [] []))
   \<and> (\<exists>r s'. getRankedOffers no_live_search failing_amazon failing_shopping ''p1'' ''BEST_PRICE'' True
                 (example_store [] []) = Inr (r, s')
          \<and> map priceCents (ranked r) = [1839, 1959, 2059]
          \<and> recommendedOfferId r = Some (offer_id (ranked r ! 0)))"
proof -
  let ?s = "example_store [] []"
  let ?p = "\<lparr>product_id = ''p1'', product_title = ''Headphones'', brand = ''Acme''\<rparr>"
  have a: "available ?s" by (simp add: example_store_def)
  have c: "\<not> (enableWebSearchOffers no_live_search \<and> enableSerpApiProxy no_live_search
         \<and> serpApiApiKey no_live_search \<noteq> [])" by (simp add: no_live_search_def)
  have p: "findProduct ?s ''p1'' = Some ?p" by (simp add: example_store_def findProduct_def)
  have q: "normalizeWhitespace (trim (''Acme'' @ '' '' @ ''Headphones'')) \<noteq> []"
    by (simp only: example_query) simp
  have q': "normalizeWhitespace (trim (brand ?p @ '' '' @ product_title ?p)) \<noteq> []"
    using q by simp
  have f: "filter (\<lambda>r. productId r = ''p1'' \<and> inStock r) (offer_table ?s) = []"
    by (simp add: example_store_def)
  have l: "\<not> list_ex (\<lambda>r. productId r = ''p1'' \<and>
              vendorId r \<in> {''fallback:ebay'', ''fallback:walmart'', ''fallback:target''})
          (offer_table ?s)" by (simp add: example_store_def)
  have "\<exists>r s'. getRankedOffers no_live_search failing_amazon failing_shopping ''p1'' ''BEST_PRICE'' True
                 ?s = Inr (r, s')
          \<and> map priceCents (ranked r) = [1839, 1959, 2059]
          \<and> recommendedOfferId r = Some (offer_id (ranked r ! 0))"
    using fallback_synthesis_three_offers[OF a c p q' f l, of failing_amazon failing_shopping]
    apply (elim exE conjE)
    subgoal for r s' by (intro exI[of _ r] exI[of _ s'] conjI)
    done
  then show ?thesis using a c p q f l by (intro conjI)
qed

theorem getRankedOffers_isolates_provider_failures_witness:
  "available (example_store [example_offer ''a'' 100] [])
   \<and> findProduct (example_store [example_offer ''a'' 100] []) ''ghost'' = None
   \<and> list_all (\<lambda>r. findProduct (example_store [example_offer ''a'' 100] []) (productId r) \<noteq> None)
        (offer_table (example_store [example_offer ''a'' 100] []))
   \<and> getRankedOffers live_search failing_amazon failing_shopping ''ghost'' ''BALANCED'' True
        (example_store [example_offer ''a'' 100] [])
       = Inr (\<lparr>ranked = [], recommendedOfferId = None, ranked_strategy = ''BALANCED''\<rparr>,
              example_store [example_offer ''a'' 100] [])
   \<and> (\<exists>r s'. getRankedOffers live_search failing_amazon failing_shopping ''p1'' ''BALANCED'' True
        (example_store [example_offer ''a'' 100] []) = Inr (r, s'))"
proof -
  let ?s = "example_store [example_offer ''a'' 100] []"
  have a: "available ?s" by (simp add: example_store_def)
  have p: "findProduct ?s ''ghost'' = None" by (simp add: example_store_def findProduct_def)
  have l: "list_all (\<lambda>r. findProduct ?s (productId r) \<noteq> None) (offer_table ?s)"
    by (simp add: example_store_def findProduct_def example_offer_def)
  note R1 = getRankedOffers_isolates_provider_failures[of ?s live_search failing_amazon
      failing_shopping "''ghost''" "''BALANCED''" True]
  note R2 = getRankedOffers_isolates_provider_failures[of ?s live_search failing_amazon
      failing_shopping "''p1''" "''BALANCED''" True]
  from R1 R2 a p l show ?thesis by blast
qed

text \<open>
  C5. The pass does not honour a pinned offer. A watch item pins offer \<open>b\<close> (10000 cents,
  its baseline) while offer \<open>a\<close> of the same product costs 5000 cents. The watchlist read
  path reports the pinned offer \<open>b\<close> as the item's best offer, and against \<open>b\<close> the alert
  rule does not fire; \<open>runPriceTick\<close> evaluates the rule against \<open>a\<close>, queues a notification
  for it and moves the baseline to 5000.
\<close>

theorem price_tick_ignores_pinned_offer:
  "map_option offer_id (watchlistBestOffer
       (example_store [example_offer ''a'' 5000, example_offer ''b'' 10000] [example_watch None (Some ''b'')])
       (example_watch None (Some ''b''))) = Some ''b''
   \<and> \<not> shouldNotify (example_watch None (Some ''b'')) (example_offer ''b'' 10000)
   \<and> map (\<lambda>n. bestOfferId (notified_payload n)) (notifications (fst (runPriceTick steady 0
       (example_store [example_offer ''a'' 5000, example_offer ''b'' 10000] [example_watch None (Some ''b'')]))))
       = [''a'']
   \<and> map lastSeenBestPriceCents (watchlist_table (snd (runPriceTick steady 0
       (example_store [example_offer ''a'' 5000, example_offer ''b'' 10000] [example_watch None (Some ''b'')]))))
       = [Some 5000]"
proof (intro conjI)
  show "map_option offer_id (watchlistBestOffer
       (example_store [example_offer ''a'' 5000, example_offer ''b'' 10000] [example_watch None (Some ''b'')])
       (example_watch None (Some ''b''))) = Some ''b''"
    by code_simp
  show "\<not> shouldNotify (example_watch None (Some ''b'')) (example_offer ''b'' 10000)"
    by code_simp
  show "map (\<lambda>n. bestOfferId (notified_payload n)) (notifications (fst (runPriceTick steady 0
       (example_store [example_offer ''a'' 5000, example_offer ''b'' 10000] [example_watch None (Some ''b'')]))))
       = [''a'']"
    by code_simp
  show "map lastSeenBestPriceCents (watchlist_table (snd (runPriceTick steady 0
       (example_store [example_offer ''a'' 5000, example_offer ''b'' 10000] [example_watch None (Some ''b'')]))))
       = [Some 5000]"
    by code_simp
qed

section \<open>Properties of the listing classification\<close>

lemma startsWith_iff: "startsWith s m \<longleftrightarrow> (\<exists>q. s = m @ q)"
  by (induction s m rule: startsWith.induct) auto

lemma js_includes_iff: "js_includes s m \<longleftrightarrow> (\<exists>p q. s = p @ m @ q)"
proof (induction s)
  case Nil
  then show ?case by auto
next
  case (Cons x xs)
  show ?case
  proof
    assume "js_includes (x # xs) m"
    then consider "startsWith (x # xs) m" | "js_includes xs m" by auto
    then show "\<exists>p q. x # xs = p @ m @ q"
    proof cases
      case 1
      then obtain q where "x # xs = m @ q" by (auto simp: startsWith_iff)
      then have "x # xs = [] @ m @ q" by simp
      then show ?thesis by blast
    next
      case 2
      then obtain p q where "xs = p @ m @ q" using Cons.IH by blast
      then have "x # xs = (x # p) @ m @ q" by simp
      then show ?thesis by blast
    qed
  next
    assume "\<exists>p q. x # xs = p @ m @ q"
    then obtain p q where e: "x # xs = p @ m @ q" by blast
    show "js_includes (x # xs) m"
    proof (cases p)
      case Nil
      then have "startsWith (x # xs) m" using e by (auto simp: startsWith_iff)
      then show ?thesis by simp
    next
      case (Cons y ys)
      then have "xs = ys @ m @ q" using e by simp
      then have "js_includes xs m" using Cons.IH by blast
      then show ?thesis by simp
    qed
  qed
qed

lemma js_includes_set: "js_includes s m \<Longrightarrow> set m \<subseteq> set s"
  by (auto simp: js_includes_iff)

lemma js_includes_map: "js_includes s m \<Longrightarrow> js_includes (map f s) (map f m)"
  unfolding js_includes_iff by (metis map_append)

lemma dropWhile_keeps:
  assumes "m \<noteq> []" "\<not> P (hd m)"
  shows "\<exists>p'. dropWhile P (p @ m @ q) = p' @ m @ q"
proof (induction p)
  case Nil
  from assms have "dropWhile P (m @ q) = m @ q" by (cases m) auto
  then have "dropWhile P ([] @ m @ q) = [] @ m @ q" by simp
  then show ?case by blast
next
  case (Cons x p)
  then obtain p' where p': "dropWhile P (p @ m @ q) = p' @ m @ q" by blast
  show ?case
  proof (cases "P x")
    case True
    then show ?thesis using p' by auto
  next
    case False
    then have "dropWhile P ((x # p) @ m @ q) = (x # p) @ m @ q" by simp
    then show ?thesis by blast
  qed
qed

lemma js_includes_trim:
  assumes "js_includes s m" "m \<noteq> []" "\<not> is_space (hd m)" "\<not> is_space (last m)"
  shows "js_includes (trim s) m"
proof -
  from assms(1) obtain p q where s: "s = p @ m @ q" by (auto simp: js_includes_iff)
  obtain p' where 1: "dropWhile is_space (p @ m @ q) = p' @ m @ q"
    using dropWhile_keeps[of m is_space p q] assms(2,3) by blast
  have rm: "rev m \<noteq> []" "\<not> is_space (hd (rev m))"
    using assms(2,4) by (simp_all add: hd_rev)
  obtain q' where 2: "dropWhile is_space (rev q @ rev m @ rev p') = q' @ rev m @ rev p'"
    using dropWhile_keeps[of "rev m" is_space "rev q" "rev p'"] rm by blast
  have "trim s = p' @ m @ rev q'"
    unfolding trim_def s 1 using 2 by simp
  then show ?thesis unfolding js_includes_iff by blast
qed

lemma js_includes_lower:
  assumes "js_includes url m" "map lower_char m = m"
  shows "js_includes (toLowerCase url) m"
  using js_includes_map[OF assms(1), of lower_char] assms(2) by (simp add: toLowerCase_def)

lemma hasSearchMarker_lower:
  assumes "hasSearchMarker url"
  shows "isLikelySearchUrl url"
proof -
  have l: "map lower_char ''/s?'' = ''/s?''" "map lower_char ''/search'' = ''/search''"
    "map lower_char ''?q='' = ''?q=''" "map lower_char ''&q='' = ''&q=''"
    "map lower_char ''_nkw='' = ''_nkw=''"
    by (simp_all add: lower_char_def)
  from assms consider "js_includes url ''/s?''" | "js_includes url ''/search''"
    | "js_includes url ''?q=''" | "js_includes url ''&q=''" | "js_includes url ''_nkw=''"
    unfolding hasSearchMarker_def by blast
  then show ?thesis
  proof cases
    case 1
    from js_includes_lower[OF this l(1)] show ?thesis by (simp add: isLikelySearchUrl_def)
  next
    case 2
    from js_includes_lower[OF this l(2)] show ?thesis by (simp add: isLikelySearchUrl_def)
  next
    case 3
    from js_includes_lower[OF this l(3)] show ?thesis by (simp add: isLikelySearchUrl_def)
  next
    case 4
    from js_includes_lower[OF this l(4)] show ?thesis by (simp add: isLikelySearchUrl_def)
  next
    case 5
    from js_includes_lower[OF this l(5)] show ?thesis by (simp add: isLikelySearchUrl_def)
  qed
qed

lemma hasSearchMarker_trim:
  assumes "hasSearchMarker url"
  shows "hasSearchMarker (trim url)"
proof -
  have 1: "js_includes url ''/s?'' \<Longrightarrow> js_includes (trim url) ''/s?''"
    by (rule js_includes_trim) (simp_all add: is_space_def)
  have 2: "js_includes url ''/search'' \<Longrightarrow> js_includes (trim url) ''/search''"
    by (rule js_includes_trim) (simp_all add: is_space_def)
  have 3: "js_includes url ''?q='' \<Longrightarrow> js_includes (trim url) ''?q=''"
    by (rule js_includes_trim) (simp_all add: is_space_def)
  have 4: "js_includes url ''&q='' \<Longrightarrow> js_includes (trim url) ''&q=''"
    by (rule js_includes_trim) (simp_all add: is_space_def)
  have 5: "js_includes url ''_nkw='' \<Longrightarrow> js_includes (trim url) ''_nkw=''"
    by (rule js_includes_trim) (simp_all add: is_space_def)
  from assms 1 2 3 4 5 show ?thesis unfolding hasSearchMarker_def by blast
qed

lemma normalizeOffer_search_marker:
  "hasSearchMarker (productUrl dbOffer) \<Longrightarrow> \<not> listingVerified (normalizeOffer dbOffer)"
  using hasSearchMarker_lower[OF hasSearchMarker_trim]
  by (simp add: normalizeOffer_def Let_def)

lemma normalizeOffer_search_marker_out:
  "hasSearchMarker (productUrl (normalizeOffer dbOffer)) \<Longrightarrow> \<not> listingVerified (normalizeOffer dbOffer)"
  using hasSearchMarker_lower
  by (simp add: normalizeOffer_def Let_def)

lemma upper_char_alnum:
  assumes "is_alnum c"
  shows "is_alnum (upper_char c)" "upper_char (upper_char c) = upper_char c"
  using assms by (auto simp: is_alnum_def upper_char_def Let_def)

lemma toUpperCase_alnum: "list_all is_alnum a \<Longrightarrow> toUpperCase a = map upper_char a"
  by (induction a) (auto simp: toUpperCase_def upper_chars_def is_alnum_def)

lemma asinBody_valid:
  assumes "asinBody t = Some a"
  shows "valid_asin a"
proof -
  from assms have t: "length (take 10 t) = 10" "list_all is_alnum (take 10 t)"
    "a = toUpperCase (take 10 t)"
    by (auto simp: asinBody_def Let_def split: if_splits)
  have "a = map upper_char (take 10 t)" unfolding t(3) by (rule toUpperCase_alnum[OF t(2)])
  then show ?thesis
    using t(1,2) by (auto simp: valid_asin_def list_all_iff upper_char_alnum)
qed

lemma asinAt_valid: "asinAt s = Some a \<Longrightarrow> valid_asin a"
  by (auto simp: asinAt_def Let_def asinBody_valid split: if_splits)

lemma extractAmazonAsinFromUrl_valid:
  "extractAmazonAsinFromUrl s = [] \<or> valid_asin (extractAmazonAsinFromUrl s)"
  by (induction s) (auto simp: asinAt_valid split: option.splits)

lemma valid_asin_chars: "valid_asin a \<Longrightarrow> c \<in> set a \<Longrightarrow> is_alnum c \<and> upper_char c = c"
  by (auto simp: valid_asin_def list_all_iff)

lemma is_alnum_not_space: "is_alnum c \<Longrightarrow> \<not> is_space c"
  by (auto simp: is_alnum_def is_space_def Let_def)

lemma trim_fixed:
  assumes "s \<noteq> []" "\<not> is_space (hd s)" "\<not> is_space (last s)"
  shows "trim s = s"
proof -
  have 1: "dropWhile is_space s = s" using assms(1,2) by (cases s) auto
  have 2: "dropWhile is_space (rev s) = rev s"
    using assms(1,3) by (cases "rev s") (auto simp: last_rev[symmetric] simp del: last_rev)
  show ?thesis by (simp add: trim_def 1 2)
qed

lemma valid_asin_fixed:
  assumes "valid_asin a"
  shows "toUpperCase (trim a) = a"
proof -
  have ne: "a \<noteq> []" using assms by (auto simp: valid_asin_def)
  then have "hd a \<in> set a" "last a \<in> set a" by simp_all
  then have "\<not> is_space (hd a)" "\<not> is_space (last a)"
    using valid_asin_chars[OF assms] is_alnum_not_space by blast+
  then have "trim a = a" using ne by (simp add: trim_fixed)
  moreover have "list_all is_alnum a"
    using valid_asin_chars[OF assms] by (simp add: list_all_iff)
  moreover have "map upper_char a = a"
    using valid_asin_chars[OF assms] by (simp add: map_idI)
  ultimately show ?thesis by (simp add: toUpperCase_alnum)
qed

lemma amazonDetailUrl_trim:
  assumes "valid_asin a"
  shows "trim (amazonDetailUrl a) = amazonDetailUrl a"
proof -
  have ne: "a \<noteq> []" using assms by (auto simp: valid_asin_def)
  then have "last a \<in> set a" by simp
  then have "\<not> is_space (last a)"
    using valid_asin_chars[OF assms] is_alnum_not_space by blast
  then show ?thesis
    using ne by (intro trim_fixed) (simp_all add: amazonDetailUrl_def is_space_def)
qed

lemma amazonDetailUrl_dp: "js_includes (amazonDetailUrl a) ''/dp/''"
proof -
  have "amazonDetailUrl a = ''https://www.amazon.com'' @ ''/dp/'' @ a"
    by (simp add: amazonDetailUrl_def)
  then show ?thesis unfolding js_includes_iff by blast
qed

lemma amazonDetailUrl_clean:
  assumes "valid_asin a"
  shows "\<not> hasSearchMarker (amazonDetailUrl a)"
proof
  assume "hasSearchMarker (amazonDetailUrl a)"
  then consider "js_includes (amazonDetailUrl a) ''/s?''" | "js_includes (amazonDetailUrl a) ''/search''"
    | "js_includes (amazonDetailUrl a) ''?q=''" | "js_includes (amazonDetailUrl a) ''&q=''"
    | "js_includes (amazonDetailUrl a) ''_nkw=''"
    unfolding hasSearchMarker_def by blast
  then have "CHR ''?'' \<in> set (amazonDetailUrl a) \<or> CHR ''e'' \<in> set (amazonDetailUrl a)
      \<or> CHR ''&'' \<in> set (amazonDetailUrl a) \<or> CHR ''_'' \<in> set (amazonDetailUrl a)"
  proof cases
    case 1 from js_includes_set[OF this] show ?thesis by simp
  next
    case 2 from js_includes_set[OF this] show ?thesis by simp
  next
    case 3 from js_includes_set[OF this] show ?thesis by simp
  next
    case 4 from js_includes_set[OF this] show ?thesis by simp
  next
    case 5 from js_includes_set[OF this] show ?thesis by simp
  qed
  then have "CHR ''?'' \<in> set a \<or> CHR ''e'' \<in> set a \<or> CHR ''&'' \<in> set a \<or> CHR ''_'' \<in> set a"
    by (simp add: amazonDetailUrl_def)
  moreover have "\<not> (is_alnum (CHR ''?'') \<and> upper_char (CHR ''?'') = CHR ''?'')"
    "\<not> (is_alnum (CHR ''e'') \<and> upper_char (CHR ''e'') = CHR ''e'')"
    "\<not> (is_alnum (CHR ''&'') \<and> upper_char (CHR ''&'') = CHR ''&'')"
    "\<not> (is_alnum (CHR ''_'') \<and> upper_char (CHR ''_'') = CHR ''_'')"
    by code_simp+
  ultimately show False using valid_asin_chars[OF assms] by blast
qed

lemma canonicalizeVendorUrl_detail:
  assumes "valid_asin a"
    and "url_canonical api (amazonDetailUrl a) = None
         \<or> url_canonical api (amazonDetailUrl a) = Some (amazonDetailUrl a)"
  shows "\<not> hasSearchMarker (canonicalizeVendorUrl api ''web:amazon'' (amazonDetailUrl a))"
proof -
  have ne: "amazonDetailUrl a \<noteq> []" by (simp add: amazonDetailUrl_def)
  have raw: "canonicalizeUrl api (amazonDetailUrl a) = amazonDetailUrl a"
    using assms(2) ne by (auto simp: canonicalizeUrl_def Let_def amazonDetailUrl_trim[OF assms(1)])
  define x where "x = extractAmazonAsinFromUrl (amazonDetailUrl a)"
  have r: "canonicalizeVendorUrl api ''web:amazon'' (amazonDetailUrl a)
      = (if x \<noteq> [] then amazonDetailUrl x else amazonDetailUrl a)"
    using ne by (simp add: canonicalizeVendorUrl_def raw Let_def x_def)
  have "x = [] \<or> valid_asin x" unfolding x_def by (rule extractAmazonAsinFromUrl_valid)
  then show ?thesis
    unfolding r using amazonDetailUrl_clean assms(1) by auto
qed

lemma set_insert_by: "set (insert_by cmp x ys) = insert x (set ys)"
  by (induction ys) auto

lemma set_js_sort: "set (js_sort cmp xs) = set xs"
  by (induction xs) (simp_all add: js_sort_def set_insert_by)

lemma pickBestOffer_mem: "pickBestOffer xs st = Some b \<Longrightarrow> b \<in> set xs"
proof -
  assume a: "pickBestOffer xs st = Some b"
  have h: "\<And>cmp. (case js_sort cmp xs of [] \<Rightarrow> None | best # _ \<Rightarrow> Some best) = Some b \<Longrightarrow> b \<in> set xs"
  proof -
    fix cmp :: "candidate \<Rightarrow> candidate \<Rightarrow> int"
    assume "(case js_sort cmp xs of [] \<Rightarrow> None | best # _ \<Rightarrow> Some best) = Some b"
    then have "b \<in> set (js_sort cmp xs)" by (cases "js_sort cmp xs") auto
    then show "b \<in> set xs" by (simp add: set_js_sort)
  qed
  from a show ?thesis
    unfolding pickBestOffer_def Let_def by (auto split: if_splits dest: h)
qed

lemma normalizeOfferBase_unverified:
  "\<not> cand_listingVerified (normalizeOfferBase v n t u p e)"
  by (simp add: normalizeOfferBase_def)

lemma amazonCandidates_props:
  "c \<in> set (amazonCandidates api i rs) \<Longrightarrow> \<not> cand_listingVerified c \<and> valid_asin (cand_asin c)"
proof (induction rs arbitrary: i)
  case Nil
  then show ?case by simp
next
  case (Cons r rs)
  show ?case
  proof (cases "extractAmazonAsinFromUrl (sr_link r) = []")
    case True
    then show ?thesis using Cons by (simp add: Let_def)
  next
    case False
    then have v: "valid_asin (extractAmazonAsinFromUrl (sr_link r))"
      using extractAmazonAsinFromUrl_valid[of "sr_link r"] by simp
    from Cons.prems False consider "c \<in> set (amazonCandidates api (Suc i) rs)"
      | e where "c = (normalizeOfferBase ''web:amazon'' ''Amazon'' (sr_title r)
              (canonicalizeVendorUrl api ''web:amazon'' (sr_link r))
              (parsePriceCents (js_or (sr_extracted_price r) (sr_price r))) e)
             \<lparr>cand_rank := i, cand_asin := extractAmazonAsinFromUrl (sr_link r)\<rparr>"
      by (auto simp: Let_def)
    then show ?thesis
    proof cases
      case 1
      then show ?thesis by (rule Cons.IH)
    next
      case 2
      then show ?thesis using v by (simp add: normalizeOfferBase_unverified)
    qed
  qed
qed

lemma shoppingCandidate_unverified:
  "shoppingCandidate api i r = Some c \<Longrightarrow> \<not> cand_listingVerified c"
  by (auto simp: shoppingCandidate_def Let_def normalizeOfferBase_unverified
      split: if_splits option.splits)

lemma shoppingCandidates_unverified:
  "c \<in> set (shoppingCandidates api i rs) \<Longrightarrow> \<not> cand_listingVerified c"
proof (induction rs arbitrary: i)
  case Nil
  then show ?case by simp
next
  case (Cons r rs)
  then show ?case
    using shoppingCandidate_unverified[of api i r]
    by (auto split: option.splits cents.splits if_splits)
qed

lemma fillSlots_subset: "set (fillSlots cs seen out) \<subseteq> set cs \<union> set out"
  by (induction cs seen out rule: fillSlots.induct) auto

lemma uniqueVendors_subset: "set (uniqueVendors seen cs) \<subseteq> set cs"
  by (induction seen cs rule: uniqueVendors.induct) auto

lemma fetchShoppingVendors_unverified:
  assumes "fetchShoppingVendors api w q st = Inr cs" "c \<in> set cs"
  shows "\<not> cand_listingVerified c"
proof (cases "shoppingSearch w q")
  case (Inl e)
  then show ?thesis using assms(1) by (simp add: fetchShoppingVendors_def)
next
  case (Inr serp)
  define cands where "cands = shoppingCandidates api 0 serp"
  define ebay where "ebay = pickBestOffer (filter (\<lambda>c. cand_vendorId c = ''web:ebay'') cands) st"
  define sorted where "sorted = js_sort (\<lambda>a b. cents_diff (priceOr a) (priceOr b)) cands"
  define out where "out = (case ebay of None \<Rightarrow> [] | Some e \<Rightarrow> [e])"
  define seen where "seen = (case ebay of None \<Rightarrow> [] | Some e \<Rightarrow> [cand_vendorId e])"
  have "fetchShoppingVendors api w q st = Inr (fillSlots sorted seen out)"
    unfolding fetchShoppingVendors_def Inr Let_def cands_def ebay_def sorted_def out_def seen_def
    by simp
  then have cs: "cs = fillSlots sorted seen out" using assms(1) by simp
  have "set out \<subseteq> set cands"
  proof (cases ebay)
    case None
    then show ?thesis by (simp add: out_def)
  next
    case (Some e)
    then have "e \<in> set (filter (\<lambda>c. cand_vendorId c = ''web:ebay'') cands)"
      unfolding ebay_def by (rule pickBestOffer_mem)
    then show ?thesis by (simp add: out_def Some)
  qed
  moreover have "set cs \<subseteq> set sorted \<union> set out" unfolding cs by (rule fillSlots_subset)
  moreover have "set sorted = set cands" unfolding sorted_def by (rule set_js_sort)
  ultimately have "c \<in> set cands" using assms(2) by blast
  then show ?thesis unfolding cands_def by (rule shoppingCandidates_unverified)
qed

lemma canonicalAmazonProductUrl_valid:
  "valid_asin a \<Longrightarrow> canonicalAmazonProductUrl a l = amazonDetailUrl a"
  by (simp add: canonicalAmazonProductUrl_def valid_asin_fixed)

lemma fetchAmazonProductViaSerpApi_link:
  assumes "valid_asin a" "fetchAmazonProductViaSerpApi w a = Inr d"
  shows "\<exists>x. d = Some x \<and> detail_link x = amazonDetailUrl a"
proof (cases "amazonProduct w a")
  case (Inl e)
  then show ?thesis
    using assms by (simp add: fetchAmazonProductViaSerpApi_def valid_asin_fixed)
next
  case (Inr payload)
  then show ?thesis
    using assms
    by (auto simp: fetchAmazonProductViaSerpApi_def valid_asin_fixed
        canonicalAmazonProductUrl_valid)
qed

lemma hydrateAmazon_url:
  assumes "valid_asin a" "detail_link d = amazonDetailUrl a"
    and "url_canonical api (amazonDetailUrl a) = None
         \<or> url_canonical api (amazonDetailUrl a) = Some (amazonDetailUrl a)"
  shows "\<not> hasSearchMarker (cand_productUrl (hydrateAmazon api seed (Some d)))"
proof -
  have ne: "amazonDetailUrl a \<noteq> []" by (simp add: amazonDetailUrl_def)
  have "cand_productUrl (hydrateAmazon api seed (Some d))
      = canonicalizeVendorUrl api ''web:amazon'' (amazonDetailUrl a)"
    using ne by (simp add: hydrateAmazon_def Let_def assms(2) amazonDetailUrl_trim[OF assms(1)])
  then show ?thesis using canonicalizeVendorUrl_detail[OF assms(1,3)] by simp
qed

lemma fetchAmazonOffer_classified:
  assumes api: "\<And>a. valid_asin a \<Longrightarrow>
      url_canonical api (amazonDetailUrl a) = None
      \<or> url_canonical api (amazonDetailUrl a) = Some (amazonDetailUrl a)"
    and r: "fetchAmazonOffer api w q st = Inr (Some c)"
  shows "\<not> (hasSearchMarker (cand_productUrl c) \<and> cand_listingVerified c)"
proof -
  from r obtain serp where serp: "amazonSearch w q = Inr serp"
    by (auto simp: fetchAmazonOffer_def split: sum.splits)
  from r serp obtain seed where seed: "pickBestOffer (amazonCandidates api 0 serp) st = Some seed"
    by (auto simp: fetchAmazonOffer_def split: option.splits)
  have p: "\<not> cand_listingVerified seed" "valid_asin (cand_asin seed)"
    using amazonCandidates_props[OF pickBestOffer_mem[OF seed]] by simp_all
  show ?thesis
  proof (cases "fetchAmazonProductViaSerpApi w (cand_asin seed)")
    case (Inl e)
    then have "c = seed" using r by (simp add: fetchAmazonOffer_def serp seed)
    then show ?thesis using p(1) by simp
  next
    case (Inr d)
    then obtain x where x: "d = Some x" "detail_link x = amazonDetailUrl (cand_asin seed)"
      using fetchAmazonProductViaSerpApi_link[OF p(2)] by blast
    have "c = hydrateAmazon api seed (Some x)"
      using r by (simp add: fetchAmazonOffer_def serp seed Inr x(1))
    then show ?thesis using hydrateAmazon_url[OF p(2) x(2) api[OF p(2)]] by simp
  qed
qed

lemma fetchTopOffers_sources:
  assumes "c \<in> set (fetchTopOffers cfg amazonAdapter shoppingAdapter query strategy)"
  shows "(\<exists>q. amazonAdapter q strategy = Inr (Some c))
       \<or> (\<exists>q cs. shoppingAdapter q strategy = Inr cs \<and> c \<in> set cs)"
proof -
  define capped where "capped = normalizeWhitespace query"
  define out where "out = (case amazonAdapter capped strategy of Inr (Some v) \<Rightarrow> [v] | _ \<Rightarrow> [])
                    @ (case shoppingAdapter capped strategy of Inr vs \<Rightarrow> vs | Inl _ \<Rightarrow> [])"
  from assms have "c \<in> set (uniqueVendors [] out)"
    by (auto simp: fetchTopOffers_def Let_def capped_def out_def split: if_splits)
  then have "c \<in> set out" using uniqueVendors_subset by blast
  then show ?thesis
    unfolding out_def by (auto split: sum.splits option.splits)
qed

text \<open>
  C7. A URL that contains one of the generic search-query markers \<open>/s?\<close>, \<open>/search\<close>,
  \<open>?q=\<close>, \<open>&q=\<close> or \<open>_nkw=\<close> is never classified as a verified listing, whatever the
  vendor: the normalizer gives \<open>listingVerified = false\<close> for a stored offer whose URL, as
  stored or as returned, contains a marker, and no candidate that the adapters hand to
  \<open>fetchTopOffers\<close> carries \<open>listingVerified = true\<close> together with such a URL. The URL parser
  of the platform is any parser that either rejects an Amazon detail URL
  \<open>https://www.amazon.com/dp/<ASIN>\<close> or serialises it as it is written.
\<close>

theorem search_marker_never_verified:
  assumes "\<And>a. valid_asin a \<Longrightarrow>
      url_canonical api (amazonDetailUrl a) = None
      \<or> url_canonical api (amazonDetailUrl a) = Some (amazonDetailUrl a)"
  shows "(hasSearchMarker (productUrl dbOffer) \<longrightarrow> \<not> listingVerified (normalizeOffer dbOffer))
    \<and> (hasSearchMarker (productUrl (normalizeOffer dbOffer))
          \<longrightarrow> \<not> listingVerified (normalizeOffer dbOffer))
    \<and> (\<forall>c \<in> set (fetchTopOffers cfg (fetchAmazonOffer api w) (fetchShoppingVendors api w)
                        query strategy).
          hasSearchMarker (cand_productUrl c) \<longrightarrow> \<not> cand_listingVerified c)"
proof (intro conjI impI ballI)
  assume "hasSearchMarker (productUrl dbOffer)"
  then show "\<not> listingVerified (normalizeOffer dbOffer)" by (rule normalizeOffer_search_marker)
next
  assume "hasSearchMarker (productUrl (normalizeOffer dbOffer))"
  then show "\<not> listingVerified (normalizeOffer dbOffer)" by (rule normalizeOffer_search_marker_out)
next
  fix c
  assume c: "c \<in> set (fetchTopOffers cfg (fetchAmazonOffer api w) (fetchShoppingVendors api w)
                        query strategy)"
    and m: "hasSearchMarker (cand_productUrl c)"
  from fetchTopOffers_sources[OF c]
  consider q where "fetchAmazonOffer api w q strategy = Inr (Some c)"
    | q cs where "fetchShoppingVendors api w q strategy = Inr cs" "c \<in> set cs"
    by blast
  then show "\<not> cand_listingVerified c"
  proof cases
    case 1
    from fetchAmazonOffer_classified[OF assms this] m show ?thesis by simp
  next
    case 2
    then show ?thesis by (rule fetchShoppingVendors_unverified)
  qed
qed

theorem search_marker_never_verified_witness:
  "hasSearchMarker (productUrl example_search_offer)
   \<and> isExactListingUrl (productUrl example_search_offer)
   \<and> \<not> listingVerified (normalizeOffer example_search_offer)
   \<and> map (\<lambda>c. (cand_productUrl c, cand_listingVerified c))
        (fetchTopOffers live_search (fetchAmazonOffer plain_urls example_world)
           (fetchShoppingVendors plain_urls example_world) ''Acme Headphones'' ''BEST_PRICE'')
       = [(''https://www.amazon.com/dp/B08N5WRWNW'', True),
          (''https://www.walmart.com/ip/12345'', False)]
   \<and> list_all (\<lambda>c. \<not> (hasSearchMarker (cand_productUrl c) \<and> cand_listingVerified c))
        (fetchTopOffers live_search (fetchAmazonOffer plain_urls example_world)
           (fetchShoppingVendors plain_urls example_world) ''Acme Headphones'' ''BEST_PRICE'')"
proof -
  have h: "\<And>a. valid_asin a \<Longrightarrow>
      url_canonical plain_urls (amazonDetailUrl a) = None
      \<or> url_canonical plain_urls (amazonDetailUrl a) = Some (amazonDetailUrl a)"
    by (simp add: plain_urls_def)
  note R = search_marker_never_verified[where api = plain_urls and dbOffer = example_search_offer
      and cfg = live_search and w = example_world and query = "''Acme Headphones''"
      and strategy = "''BEST_PRICE''", OF h]
  have 1: "hasSearchMarker (productUrl example_search_offer)" by code_simp
  have 2: "isExactListingUrl (productUrl example_search_offer)" by code_simp
  have 3: "map (\<lambda>c. (cand_productUrl c, cand_listingVerified c))
        (fetchTopOffers live_search (fetchAmazonOffer plain_urls example_world)
           (fetchShoppingVendors plain_urls example_world) ''Acme Headphones'' ''BEST_PRICE'')
       = [(''https://www.amazon.com/dp/B08N5WRWNW'', True),
          (''https://www.walmart.com/ip/12345'', False)]" by code_simp
  from R 1 have 4: "\<not> listingVerified (normalizeOffer example_search_offer)" by blast
  from R have 5: "list_all (\<lambda>c. \<not> (hasSearchMarker (cand_productUrl c) \<and> cand_listingVerified c))
        (fetchTopOffers live_search (fetchAmazonOffer plain_urls example_world)
           (fetchShoppingVendors plain_urls example_world) ''Acme Headphones'' ''BEST_PRICE'')"
    unfolding list_all_iff by blast
  from 1 2 3 4 5 show ?thesis by blast
qed

end
